theory Spec2Isabelle
  imports Main
begin

section \<open>Python built-ins used by lacam.py and comprehensive_test.py\<close>

text \<open>
  Exceptions are values. \<open>SystemExit n\<close> is what \<open>sys.exit(n)\<close> raises; it is not an
  \<open>Exception\<close>, so an \<open>except Exception\<close> clause lets it pass.
  A \<open>char\<close> stands for one code point below 256. The interpreter's configurable limit
  on the number of digits in an int/str conversion is, like memory, not modelled.
\<close>

datatype error =
  ValueError | IndexError | KeyError | ZeroDivisionError | SystemExit int

definition TAB :: char where
  "TAB = CHR 0x09"

definition LF :: char where
  "LF = CHR 0x0A"

definition CR :: char where
  "CR = CHR 0x0D"

text \<open>\<open>str.isspace\<close> on one code point below 256.\<close>

definition is_space :: "char \<Rightarrow> bool" where
  "is_space c = (let n = (of_char c :: nat) in
     (9 \<le> n \<and> n \<le> 13) \<or> (28 \<le> n \<and> n \<le> 32) \<or> n = 133 \<or> n = 160)"

text \<open>\<open>s.strip()\<close>\<close>

definition strip :: "string \<Rightarrow> string" where
  "strip s = rev (dropWhile is_space (rev (dropWhile is_space s)))"

text \<open>\<open>s.startswith(p)\<close>\<close>

definition startswith :: "string \<Rightarrow> string \<Rightarrow> bool" where
  "startswith s p = (take (length p) s = p)"

text \<open>\<open>s.split(c)\<close> for a one-character separator: empty fields are kept.\<close>

fun split :: "string \<Rightarrow> char \<Rightarrow> string list" where
  "split [] c = [[]]"
| "split (x # xs) c =
     (if x = c then [] # split xs c
      else (case split xs c of [] \<Rightarrow> [[x]] | p # ps \<Rightarrow> (x # p) # ps))"

text \<open>
  Reading a file opened with \<open>open(path, 'r')\<close>: universal newlines turn \<open>\r\n\<close> and
  \<open>\r\<close> into \<open>\n\<close>, and \<open>readlines\<close> (or iterating the file) cuts after every \<open>\n\<close>.
\<close>

fun universal_newlines :: "string \<Rightarrow> string" where
  "universal_newlines [] = []"
| "universal_newlines [x] = [if x = CR then LF else x]"
| "universal_newlines (x # y # ys) =
     (if x = CR \<and> y = LF then LF # universal_newlines ys
      else if x = CR then LF # universal_newlines (y # ys)
      else x # universal_newlines (y # ys))"

fun cut_lines :: "string \<Rightarrow> string list" where
  "cut_lines [] = []"
| "cut_lines (x # xs) =
     (if x = LF then [x] # cut_lines xs
      else (case cut_lines xs of [] \<Rightarrow> [[x]] | l # ls \<Rightarrow> (x # l) # ls))"

definition readlines :: "string \<Rightarrow> string list" where
  "readlines content = cut_lines (universal_newlines content)"

text \<open>\<open>str(n)\<close> for an int.\<close>

definition digit_char :: "nat \<Rightarrow> char" where
  "digit_char d = ''0123456789'' ! d"

fun digits_of :: "nat \<Rightarrow> string" where
  "digits_of n = (if n < 10 then [digit_char n] else digits_of (n div 10) @ [digit_char (n mod 10)])"

declare digits_of.simps [simp del]

definition str_int :: "int \<Rightarrow> string" where
  "str_int n = (if n < 0 then CHR ''-'' # digits_of (nat (- n)) else digits_of (nat n))"

text \<open>
  \<open>int(s)\<close> for a str: surrounding whitespace is dropped, one sign is allowed, and single
  underscores may separate digits. Anything else raises ValueError. The whitespace that
  \<open>int\<close> drops is narrower than that of \<open>strip\<close>: the separators U+001C to U+001F are
  not part of it (\<open>int('\x1c1')\<close> raises ValueError).
\<close>

definition is_int_space :: "char \<Rightarrow> bool" where
  "is_int_space c = (let n = (of_char c :: nat) in
     (9 \<le> n \<and> n \<le> 13) \<or> n = 32 \<or> n = 133 \<or> n = 160)"

definition is_digit :: "char \<Rightarrow> bool" where
  "is_digit c = (48 \<le> (of_char c :: nat) \<and> (of_char c :: nat) \<le> 57)"

definition digit_val :: "char \<Rightarrow> nat" where
  "digit_val c = of_char c - 48"

fun py_digits :: "bool \<Rightarrow> string \<Rightarrow> nat \<Rightarrow> nat option" where
  "py_digits prev [] acc = (if prev then Some acc else None)"
| "py_digits prev (c # cs) acc =
     (if is_digit c then py_digits True cs (10 * acc + digit_val c)
      else if c = CHR ''_'' \<and> prev then py_digits False cs acc
      else None)"

definition py_int :: "string \<Rightarrow> error + int" where
  "py_int s =
     (case rev (dropWhile is_int_space (rev (dropWhile is_int_space s))) of
        [] \<Rightarrow> Inl ValueError
      | c # cs \<Rightarrow>
          (case py_digits False (if c = CHR ''-'' \<or> c = CHR ''+'' then cs else c # cs) 0 of
             None \<Rightarrow> Inl ValueError
           | Some n \<Rightarrow> Inr (if c = CHR ''-'' then - int n else int n)))"

text \<open>\<open>xs[i]\<close>: a negative index counts from the end, out of range raises IndexError.\<close>

definition getitem :: "'a list \<Rightarrow> int \<Rightarrow> error + 'a" where
  "getitem xs i =
     (if 0 \<le> i \<and> i < int (length xs) then Inr (xs ! nat i)
      else if i < 0 \<and> - int (length xs) \<le> i then Inr (xs ! nat (int (length xs) + i))
      else Inl IndexError)"

text \<open>\<open>xs[:n]\<close>: a negative bound counts from the end.\<close>

definition slice_to :: "'a list \<Rightarrow> int \<Rightarrow> 'a list" where
  "slice_to xs n = (if 0 \<le> n then take (nat n) xs else take (nat (int (length xs) + n)) xs)"

text \<open>\<open>max(xs)\<close> of a list: ValueError on the empty list.\<close>

fun py_max :: "'a::linorder list \<Rightarrow> error + 'a" where
  "py_max [] = Inl ValueError"
| "py_max (x # xs) = Inr (fold max xs x)"

section \<open>Agents and segment scenarios (lacam.py)\<close>

type_synonym pos = "int \<times> int"

record agent =
  start :: pos
  goal :: pos
  waypoints :: "pos list"
  K :: int
  bucket_id :: int

text \<open>
  The start and goal that \<open>create_segment_scenario\<close> picks for one agent
  (the \<open>if\<close>/\<open>elif\<close>/\<open>else\<close> at the head of its loop body).
\<close>

definition segment_start_goal :: "agent \<Rightarrow> int \<Rightarrow> error + (pos \<times> pos)" where
  "segment_start_goal a segment_idx =
     (if segment_idx = 0 then
        (case (if waypoints a \<noteq> [] then getitem (waypoints a) 0 else Inr (goal a)) of
           Inl e \<Rightarrow> Inl e
         | Inr g \<Rightarrow> Inr (start a, g))
      else if segment_idx \<le> int (length (waypoints a)) then
        (case getitem (waypoints a) (segment_idx - 1) of
           Inl e \<Rightarrow> Inl e
         | Inr s \<Rightarrow>
             if segment_idx = int (length (waypoints a)) then Inr (s, goal a)
             else (case getitem (waypoints a) segment_idx of
                     Inl e \<Rightarrow> Inl e
                   | Inr g \<Rightarrow> Inr (s, g)))
      else Inr (goal a, goal a))"

text \<open>The line written for one agent; \<open>opt_len\<close> is the Manhattan distance.\<close>

definition scenario_line :: "agent \<Rightarrow> string \<Rightarrow> int \<Rightarrow> int \<Rightarrow> pos \<times> pos \<Rightarrow> string" where
  "scenario_line a map_filename map_width map_height sg =
     (case sg of (s, g) \<Rightarrow>
        (let opt_len = \<bar>fst s - fst g\<bar> + \<bar>snd s - snd g\<bar> in
         str_int (bucket_id a) @ [TAB] @ map_filename @ [TAB] @ str_int map_width @ [TAB]
         @ str_int map_height @ [TAB] @ str_int (fst s) @ [TAB] @ str_int (snd s) @ [TAB]
         @ str_int (fst g) @ [TAB] @ str_int (snd g) @ [TAB] @ str_int opt_len @ [LF]))"

fun segment_lines :: "agent list \<Rightarrow> int \<Rightarrow> string \<Rightarrow> int \<Rightarrow> int \<Rightarrow> error + string" where
  "segment_lines [] segment_idx map_filename map_width map_height = Inr []"
| "segment_lines (a # as) segment_idx map_filename map_width map_height =
     (case segment_start_goal a segment_idx of
        Inl e \<Rightarrow> Inl e
      | Inr sg \<Rightarrow>
          (case segment_lines as segment_idx map_filename map_width map_height of
             Inl e \<Rightarrow> Inl e
           | Inr rest \<Rightarrow> Inr (scenario_line a map_filename map_width map_height sg @ rest)))"

text \<open>
  \<open>create_segment_scenario\<close>: the value is the text of the temporary file whose name the
  source returns, or the exception that leaves the function.
\<close>

definition create_segment_scenario ::
  "agent list \<Rightarrow> int \<Rightarrow> string \<Rightarrow> int \<Rightarrow> int \<Rightarrow> error + string" where
  "create_segment_scenario agents segment_idx map_filename map_width map_height =
     (case segment_lines agents segment_idx map_filename map_width map_height of
        Inl e \<Rightarrow> Inl e
      | Inr body \<Rightarrow> Inr (''version 1'' @ [LF] @ body))"

text \<open>
  The rule as the specification words it, for a segment index that is a natural number;
  the agent's \<open>K\<close> is the number of its waypoints.
\<close>

definition three_case_rule :: "agent \<Rightarrow> nat \<Rightarrow> pos \<times> pos" where
  "three_case_rule a i =
     (if i = 0 then (start a, if waypoints a \<noteq> [] then waypoints a ! 0 else goal a)
      else if i \<le> length (waypoints a)
        then (waypoints a ! (i - 1), if i < length (waypoints a) then waypoints a ! i else goal a)
      else (goal a, goal a))"

section \<open>Scenario parsing (lacam.py)\<close>

text \<open>
  The body of the \<open>while\<close> loop of \<open>parse_waypoint_scenario\<close> for one line:
  \<open>Skip\<close> is \<open>i += 1; continue\<close>, \<open>Stuck\<close> is the \<open>continue\<close> of the branch that
  prints the warning (it leaves \<open>i\<close> as it is), \<open>Parsed\<close> is the append followed by
  \<open>i += 1\<close>, \<open>Raise\<close> is an exception of \<open>int\<close>.
\<close>

datatype line_outcome = Skip | Stuck | Parsed agent | Raise error

text \<open>\<open>parts[10:]\<close> is read pairwise for \<open>j\<close> in \<open>range(K)\<close>.\<close>

fun extract_waypoints :: "string list \<Rightarrow> nat list \<Rightarrow> error + pos list" where
  "extract_waypoints waypoint_parts [] = Inr []"
| "extract_waypoints waypoint_parts (j # js) =
     (if j * 2 + 1 < length waypoint_parts then
        (case py_int (waypoint_parts ! (j * 2)) of
           Inl e \<Rightarrow> Inl e
         | Inr wp_row \<Rightarrow>
             (case py_int (waypoint_parts ! (j * 2 + 1)) of
                Inl e \<Rightarrow> Inl e
              | Inr wp_col \<Rightarrow>
                  (case extract_waypoints waypoint_parts js of
                     Inl e \<Rightarrow> Inl e
                   | Inr rest \<Rightarrow> Inr ((wp_row, wp_col) # rest))))
      else extract_waypoints waypoint_parts js)"

definition parse_line :: "string \<Rightarrow> line_outcome" where
  "parse_line raw =
     (let line = strip raw in
      if line = [] then Skip
      else let parts = split line TAB in
        if length parts < 10 then Skip
        else
          (case py_int (parts ! 4) of Inl e \<Rightarrow> Raise e | Inr s_row \<Rightarrow>
          (case py_int (parts ! 5) of Inl e \<Rightarrow> Raise e | Inr s_col \<Rightarrow>
          (case py_int (parts ! 6) of Inl e \<Rightarrow> Raise e | Inr g_row \<Rightarrow>
          (case py_int (parts ! 7) of Inl e \<Rightarrow> Raise e | Inr g_col \<Rightarrow>
          (case py_int (parts ! 9) of Inl e \<Rightarrow> Raise e | Inr k \<Rightarrow>
             if 10 + k * 2 \<le> int (length parts) then
               (case extract_waypoints (drop 10 parts) [0..<nat k] of
                  Inl e \<Rightarrow> Raise e
                | Inr wps \<Rightarrow>
                    (case py_int (parts ! 0) of
                       Inl e \<Rightarrow> Raise e
                     | Inr b \<Rightarrow>
                         Parsed \<lparr>start = (s_row, s_col), goal = (g_row, g_col),
                                 waypoints = wps, K = k, bucket_id = b\<rparr>))
             else Stuck))))))"

text \<open>
  The loop may run forever, so it is a partial function: \<open>None\<close> is "does not return".
\<close>

partial_function (option) parse_loop ::
  "string list \<Rightarrow> nat \<Rightarrow> agent list \<Rightarrow> (error + agent list) option" where
  "parse_loop lines i agents =
     (if i < length lines then
        (case parse_line (lines ! i) of
           Skip \<Rightarrow> parse_loop lines (i + 1) agents
         | Stuck \<Rightarrow> parse_loop lines i agents
         | Parsed a \<Rightarrow> parse_loop lines (i + 1) (agents @ [a])
         | Raise e \<Rightarrow> Some (Inl e))
      else Some (Inr agents))"

text \<open>The argument is the content of the scenario file.\<close>

definition parse_waypoint_scenario :: "string \<Rightarrow> (error + agent list) option" where
  "parse_waypoint_scenario content =
     (let lines = readlines content;
          start_idx = (if lines \<noteq> [] \<and> startswith (strip (lines ! 0)) ''version'' then 1 else 0)
      in parse_loop lines start_idx [])"

section \<open>Solver invocation (lacam.py)\<close>

text \<open>
  The external solver is the environment. One invocation is described by what the
  orchestrator hands over (the text of the temporary scenario file, \<open>--num\<close>, \<open>--seed\<close>,
  \<open>--time_limit_sec\<close>) and by what \<open>subprocess.run\<close> and the file system give back: the
  child's return code, captured stdout and stderr and the elapsed time, or
  \<open>TimeoutExpired\<close>, or another exception of \<open>subprocess.run\<close>, all of class
  \<open>Exception\<close> (\<open>OSError\<close> when the executable cannot be started, \<open>OverflowError\<close>
  when the timeout is too large for the platform, or one known by its message only); the
  content of the output file afterwards (\<open>None\<close> when it cannot be
  opened) and the name \<open>tempfile\<close> chose for it. Elapsed times are floats in the source;
  their type \<open>'f\<close> is left open and no arithmetic is done on them.
\<close>

record solver_request =
  req_scenario :: string
  req_num :: nat
  req_seed :: int
  req_time_limit :: int

datatype run_exception = OSError | OverflowError | OtherException string

datatype 'f child = Exited int string string 'f | TimeoutExpired | Raised run_exception

record 'f solver_run =
  child :: "'f child"
  artifact :: "string option"
  temp_out :: string

text \<open>The second component of the result is the float runtime or the int timeout.\<close>

datatype 'f seconds = Measured 'f | Whole int

text \<open>
  The scan for the cost: the first line that starts with \<open>soc=\<close> decides, and every
  exception inside the \<open>try\<close> leaves the cost at 0.
\<close>

definition soc_cost :: "string option \<Rightarrow> int" where
  "soc_cost art =
     (case art of
        None \<Rightarrow> 0
      | Some content \<Rightarrow>
          (case find (\<lambda>line. startswith line ''soc='') (readlines content) of
             None \<Rightarrow> 0
           | Some line \<Rightarrow>
               (case getitem (split line CHR ''='') 1 of
                  Inl e \<Rightarrow> 0
                | Inr v \<Rightarrow> (case py_int (strip v) of Inl e \<Rightarrow> 0 | Inr c \<Rightarrow> c))))"

text \<open>
  \<open>run_lacam_segment\<close>: \<open>solve\<close> is the environment's answer to the command line built
  from the arguments. Only \<open>TimeoutExpired\<close> is caught; any other exception of
  \<open>subprocess.run\<close> leaves the function.
\<close>

definition run_lacam_segment ::
  "(solver_request \<Rightarrow> 'f solver_run) \<Rightarrow> string \<Rightarrow> nat \<Rightarrow> int \<Rightarrow> int
     \<Rightarrow> run_exception + (int option \<times> 'f seconds \<times> string option)" where
  "run_lacam_segment solve scen_text num_agents sd timeout_s =
     (let r = solve \<lparr>req_scenario = scen_text, req_num = num_agents, req_seed = sd,
                      req_time_limit = timeout_s\<rparr>
      in case child r of
           TimeoutExpired \<Rightarrow> Inr (None, Whole timeout_s, None)
         | Raised e \<Rightarrow> Inl e
         | Exited returncode out err runtime \<Rightarrow>
             if returncode \<noteq> 0 then Inr (None, Measured runtime, None)
             else Inr (Some (soc_cost (artifact r)), Measured runtime, Some (temp_out r)))"

text \<open>
  A line of the form \<open>soc=<int>\<close>, as the scan reads it: the line starts with \<open>soc=\<close>
  and what stands between the first and the second \<open>=\<close> is accepted by \<open>int\<close>.
\<close>

definition is_soc_line :: "string \<Rightarrow> bool" where
  "is_soc_line line =
     (startswith line ''soc='' \<and>
      (case getitem (split line CHR ''='') 1 of
         Inl e \<Rightarrow> False
       | Inr v \<Rightarrow> (case py_int (strip v) of Inl e \<Rightarrow> False | Inr c \<Rightarrow> True)))"

section \<open>Experiments (lacam.py)\<close>

text \<open>
  The per-segment timeout of \<open>run_experiment\<close>: floor division, then the floor of one
  second. \<open>num_segments\<close> is \<open>max_waypoints + 1\<close> there, so it is never zero.
\<close>

definition per_segment_timeout :: "int \<Rightarrow> int \<Rightarrow> int" where
  "per_segment_timeout total_timeout num_segments =
     (let t = total_timeout div num_segments in if t < 1 then 1 else t)"

text \<open>
  The command-line arguments. \<open>map_path\<close> is \<open>args.map\<close>.
\<close>

record args =
  exe :: string
  map_path :: string
  scen :: string
  num :: "int option"
  multi_scale :: bool
  seed :: int
  timeout :: int
  out :: string

text \<open>
  What is observed of a run: solver invocations, files written below the output
  directory, and calls of \<open>run_experiment\<close> with the agent count and the agents handed
  over. Console output and the registry of temporary files are left out.
\<close>

datatype event = Invoked solver_request | Wrote string | Experiment int "agent list"

record world =
  calls :: nat
  trace :: "event list"

text \<open>
  The environment: the solver's answer to its \<open>n\<close>-th invocation, the last component of
  \<open>args.map\<close> (\<open>pathlib.Path(args.map).name\<close>) and the pair that
  \<open>get_map_dimensions(args.map)\<close> returns.
\<close>

record 'f env =
  solver :: "nat \<Rightarrow> solver_request \<Rightarrow> 'f solver_run"
  map_name :: string
  map_dims :: "int \<times> int"

record 'f segment_result =
  segment_id :: nat
  cost :: int
  makespan :: int
  runtime :: "'f seconds"
  solved :: bool
  output_file :: string

text \<open>
  The summary, without its float-valued entries (runtime totals, wall-clock time and
  the averages), which need float arithmetic.
\<close>

record 'f summary =
  total_segments :: nat
  used_timeout :: int
  total_cost :: int
  max_makespan :: int
  num_segments :: nat
  all_segments_solved :: bool
  segment_results :: "'f segment_result list"
  total_agents :: nat
  max_waypoints_per_agent :: nat
  total_waypoint_to_waypoint_transitions :: nat
  total_path_segments :: nat

text \<open>
  The scan of the copied plan for \<open>makespan=\<close> and \<open>solved=\<close> lines; an exception ends
  the scan and keeps what was read so far.
\<close>

fun scan_metrics :: "string list \<Rightarrow> int \<Rightarrow> bool \<Rightarrow> int \<times> bool" where
  "scan_metrics [] mk sv = (mk, sv)"
| "scan_metrics (line # rest) mk sv =
     (if startswith line ''makespan='' then
        (case getitem (split line CHR ''='') 1 of
           Inl e \<Rightarrow> (mk, sv)
         | Inr v \<Rightarrow> (case py_int (strip v) of
                      Inl e \<Rightarrow> (mk, sv)
                    | Inr m \<Rightarrow> scan_metrics rest m sv))
      else if startswith line ''solved='' then
        (case getitem (split line CHR ''='') 1 of
           Inl e \<Rightarrow> (mk, sv)
         | Inr v \<Rightarrow> (case py_int (strip v) of
                      Inl e \<Rightarrow> (mk, sv)
                    | Inr b \<Rightarrow> scan_metrics rest mk (b = 1)))
      else scan_metrics rest mk sv)"

definition segment_metrics :: "string option \<Rightarrow> int \<times> bool" where
  "segment_metrics plan =
     (case plan of None \<Rightarrow> (0, False) | Some content \<Rightarrow> scan_metrics (readlines content) 0 False)"

definition max_waypoints_of :: "agent list \<Rightarrow> error + nat" where
  "max_waypoints_of agents = py_max (map (\<lambda>a. length (waypoints a)) agents)"

definition segment_out :: "string \<Rightarrow> nat \<Rightarrow> string" where
  "segment_out out_dir segment_idx = out_dir @ ''/segment_'' @ str_int (int segment_idx) @ ''.yaml''"

definition summary_file :: "string \<Rightarrow> string" where
  "summary_file out_dir = out_dir @ ''/waypoint_summary.json''"

definition readable_summary :: "string \<Rightarrow> string" where
  "readable_summary out_dir = out_dir @ ''/waypoint_summary.txt''"

text \<open>
  The body of the \<open>for segment_idx in range(num_segments)\<close> loop. An exception of the
  builder or of \<open>run_lacam_segment\<close> is caught by \<open>except Exception\<close>, which exits with
  status 1 as the \<open>cost is None\<close> branch does. The output directory is taken to be fresh:
  \<open>segment_<i>.yaml\<close> exists only once the plan has been copied there, and then holds
  the solver's output.
\<close>

definition run_segment ::
  "'f env \<Rightarrow> agent list \<Rightarrow> args \<Rightarrow> int \<Rightarrow> string \<Rightarrow> nat \<Rightarrow> world
     \<Rightarrow> (error + 'f segment_result) \<times> world" where
  "run_segment env agents args per out_dir segment_idx w =
     (case create_segment_scenario agents (int segment_idx) (map_name env)
             (fst (map_dims env)) (snd (map_dims env)) of
        Inl e \<Rightarrow> (Inl (SystemExit 1), w)
      | Inr temp_scen \<Rightarrow>
          (let request = \<lparr>req_scenario = temp_scen, req_num = length agents,
                           req_seed = seed args, req_time_limit = per\<rparr>;
               w1 = w\<lparr>calls := calls w + 1, trace := trace w @ [Invoked request]\<rparr>
           in case run_lacam_segment (solver env (calls w)) temp_scen (length agents)
                     (seed args) per of
                Inl e \<Rightarrow> (Inl (SystemExit 1), w1)
              | Inr (c, rt, plan_file) \<Rightarrow>
                  (case c of
                     None \<Rightarrow> (Inl (SystemExit 1), w1)
                   | Some cst \<Rightarrow>
                       (let plan = (if plan_file \<noteq> None
                                    then artifact (solver env (calls w) request) else None);
                            w2 = (if plan \<noteq> None
                                  then w1\<lparr>trace := trace w1 @ [Wrote (segment_out out_dir segment_idx)]\<rparr>
                                  else w1)
                        in case segment_metrics plan of
                             (mk, sv) \<Rightarrow>
                               (Inr \<lparr>segment_id = segment_idx, cost = cst, makespan = mk,
                                     runtime = rt, solved = sv,
                                     output_file = segment_out out_dir segment_idx\<rparr>, w2)))))"

text \<open>The loop over the indices still to run; it stops at the first exit.\<close>

fun run_segments ::
  "'f env \<Rightarrow> agent list \<Rightarrow> args \<Rightarrow> int \<Rightarrow> string \<Rightarrow> nat list \<Rightarrow> 'f segment_result list \<Rightarrow> world
     \<Rightarrow> (error + 'f segment_result list) \<times> world" where
  "run_segments env agents args per out_dir [] acc w = (Inr acc, w)"
| "run_segments env agents args per out_dir (segment_idx # rest) acc w =
     (case run_segment env agents args per out_dir segment_idx w of
        (Inl e, w') \<Rightarrow> (Inl e, w')
      | (Inr segment_result, w') \<Rightarrow>
          run_segments env agents args per out_dir rest (acc @ [segment_result]) w')"

text \<open>
  Names for what the loop does with segment \<open>i\<close>: the scenario text handed to the
  solver, the request, and the cost that the loop obtains from \<open>run_lacam_segment\<close> when
  this invocation is the \<open>c\<close>-th one of the run. There is no cost when the function
  returns \<open>None\<close> for it and when it leaves with an exception.
\<close>

definition segment_text :: "'f env \<Rightarrow> agent list \<Rightarrow> nat \<Rightarrow> string" where
  "segment_text env agents i =
     (case create_segment_scenario agents (int i) (map_name env)
             (fst (map_dims env)) (snd (map_dims env)) of
        Inl e \<Rightarrow> []
      | Inr t \<Rightarrow> t)"

definition segment_request :: "'f env \<Rightarrow> agent list \<Rightarrow> args \<Rightarrow> int \<Rightarrow> nat \<Rightarrow> solver_request" where
  "segment_request env agents args per i =
     \<lparr>req_scenario = segment_text env agents i, req_num = length agents,
      req_seed = seed args, req_time_limit = per\<rparr>"

definition segment_cost :: "'f env \<Rightarrow> agent list \<Rightarrow> args \<Rightarrow> int \<Rightarrow> nat \<Rightarrow> nat \<Rightarrow> int option" where
  "segment_cost env agents args per c i =
     (case run_lacam_segment (solver env c) (segment_text env agents i) (length agents)
             (seed args) per of
        Inl e \<Rightarrow> None
      | Inr (cst, rt, plan_file) \<Rightarrow> cst)"

text \<open>Projections of a trace.\<close>

fun invocations :: "event list \<Rightarrow> solver_request list" where
  "invocations [] = []"
| "invocations (Invoked rq # es) = rq # invocations es"
| "invocations (Wrote f # es) = invocations es"
| "invocations (Experiment n used # es) = invocations es"

fun files_written :: "event list \<Rightarrow> string list" where
  "files_written [] = []"
| "files_written (Invoked rq # es) = files_written es"
| "files_written (Wrote f # es) = f # files_written es"
| "files_written (Experiment n used # es) = files_written es"

fun experiments_run :: "event list \<Rightarrow> (int \<times> agent list) list" where
  "experiments_run [] = []"
| "experiments_run (Invoked rq # es) = experiments_run es"
| "experiments_run (Wrote f # es) = experiments_run es"
| "experiments_run (Experiment n used # es) = (n, used) # experiments_run es"

text \<open>
  \<open>run_experiment\<close>: \<open>max\<close> of an empty agent list raises ValueError before the
  \<open>try\<close>; a failed loop leaves through \<open>sys.exit(1)\<close>; otherwise the two summary files
  are written and the summary is returned.
\<close>

definition run_experiment ::
  "'f env \<Rightarrow> agent list \<Rightarrow> args \<Rightarrow> string \<Rightarrow> world \<Rightarrow> (error + 'f summary) \<times> world" where
  "run_experiment env agents args out_dir w =
     (case max_waypoints_of agents of
        Inl e \<Rightarrow> (Inl e, w)
      | Inr max_waypoints \<Rightarrow>
          (let n_segments = max_waypoints + 1;
               per = per_segment_timeout (timeout args) (int n_segments)
           in case run_segments env agents args per out_dir [0..<n_segments] [] w of
                (Inl e, w') \<Rightarrow> (Inl e, w')
              | (Inr results, w') \<Rightarrow>
                  (Inr \<lparr>total_segments = n_segments,
                        used_timeout = per,
                        total_cost = sum_list (map cost results),
                        max_makespan = (if results \<noteq> []
                          then (case py_max (map makespan results) of Inl e \<Rightarrow> 0 | Inr m \<Rightarrow> m)
                          else 0),
                        num_segments = length results,
                        all_segments_solved = list_all solved results,
                        segment_results = results,
                        total_agents = length agents,
                        max_waypoints_per_agent = max_waypoints,
                        total_waypoint_to_waypoint_transitions =
                          sum_list (map (\<lambda>a. length (waypoints a)) agents),
                        total_path_segments = (max_waypoints + 1) * length agents\<rparr>,
                   w'\<lparr>trace := trace w' @ [Wrote (summary_file out_dir),
                                            Wrote (readable_summary out_dir)]\<rparr>)))"

text \<open>The agent counts of \<open>main\<close> and its loop over them.\<close>

definition agent_counts :: "args \<Rightarrow> agent list \<Rightarrow> int list" where
  "agent_counts args agents =
     (if multi_scale args then [100, 200, 300, 400, 500]
      else [case num args of Some n \<Rightarrow> n | None \<Rightarrow> int (length agents)])"

definition current_out_dir :: "args \<Rightarrow> int \<Rightarrow> string" where
  "current_out_dir args agent_count =
     (if multi_scale args then out args @ ''/exp_'' @ str_int agent_count @ ''_agents''
      else out args)"

fun run_counts ::
  "'f env \<Rightarrow> agent list \<Rightarrow> args \<Rightarrow> int list \<Rightarrow> (int \<times> 'f summary) list \<Rightarrow> world
     \<Rightarrow> (error + (int \<times> 'f summary) list) \<times> world" where
  "run_counts env agents args [] all_results w = (Inr all_results, w)"
| "run_counts env agents args (agent_count # rest) all_results w =
     (let current_agents = slice_to agents agent_count in
      case run_experiment env current_agents args (current_out_dir args agent_count)
             (w\<lparr>trace := trace w @ [Experiment agent_count current_agents]\<rparr>) of
        (Inl e, w') \<Rightarrow> (Inl e, w')
      | (Inr result, w') \<Rightarrow>
          run_counts env agents args rest (all_results @ [(agent_count, result)]) w')"

text \<open>
  \<open>main\<close> after argument parsing, on the content of the scenario file. \<open>None\<close> is
  "does not return".
\<close>

definition main ::
  "'f env \<Rightarrow> args \<Rightarrow> string \<Rightarrow> ((error + (int \<times> 'f summary) list) \<times> world) option" where
  "main env args scen_content =
     (case parse_waypoint_scenario scen_content of
        None \<Rightarrow> None
      | Some (Inl e) \<Rightarrow> Some (Inl (SystemExit 1), \<lparr>calls = 0, trace = []\<rparr>)
      | Some (Inr agents) \<Rightarrow>
          if agents = [] then Some (Inl (SystemExit 1), \<lparr>calls = 0, trace = []\<rparr>)
          else
            (case run_counts env agents args (agent_counts args agents) [] \<lparr>calls = 0, trace = []\<rparr> of
               (Inl e, w) \<Rightarrow> Some (Inl e, w)
             | (Inr all_results, w) \<Rightarrow>
                 Some (Inr all_results,
                       if multi_scale args
                       then w\<lparr>trace := trace w @ [Wrote (out args @ ''/multi_scale_summary.json''),
                                                   Wrote (out args @ ''/multi_scale_summary.txt'')]\<rparr>
                       else w)))"

section \<open>The matrix runner (comprehensive_test.py)\<close>

text \<open>
  One cell runs lacam.py as a child process. The environment gives what
  \<open>subprocess.run\<close> returns (return code, stdout, stderr, elapsed time) together with the
  state of \<open>waypoint_summary.json\<close> in the cell's output directory, or \<open>TimeoutExpired\<close>,
  or another exception with its message and the time measured in its handler (a summary
  that cannot be loaded ends there too). Of the summary only the entries that the report
  reads are kept; two of them are floats.
\<close>

record 'f cell_data =
  total_runtime_ms :: 'f
  data_total_cost :: int
  avg_cost_per_agent :: 'f

datatype 'f summary_state =
  SummaryMissing | SummaryLoaded "'f cell_data" | SummaryBroken string 'f

datatype 'f cell_run =
  CellExited int string string 'f "'f summary_state"
  | CellTimeout
  | CellRaised string 'f

text \<open>The dictionary that \<open>run_single_experiment\<close> returns; absent keys are \<open>None\<close>.\<close>

record 'f cell =
  cell_map :: string
  cell_waypoints :: int
  cell_agent_count :: int
  status :: string
  wall_time :: "'f seconds"
  data :: "'f cell_data option"
  cell_error :: "string option"
  cell_stdout :: "string option"

definition run_single_experiment :: "'f cell_run \<Rightarrow> string \<Rightarrow> int \<Rightarrow> int \<Rightarrow> 'f cell" where
  "run_single_experiment r map_file wps agent_count =
     (case r of
        CellExited returncode sout serr elapsed st \<Rightarrow>
          if returncode = 0 then
            (case st of
               SummaryLoaded summary_data \<Rightarrow>
                 \<lparr>cell_map = map_file, cell_waypoints = wps, cell_agent_count = agent_count,
                  status = ''success'', wall_time = Measured elapsed, data = Some summary_data,
                  cell_error = None, cell_stdout = None\<rparr>
             | SummaryMissing \<Rightarrow>
                 \<lparr>cell_map = map_file, cell_waypoints = wps, cell_agent_count = agent_count,
                  status = ''no_summary'', wall_time = Measured elapsed, data = None,
                  cell_error = Some ''Summary file not found'', cell_stdout = None\<rparr>
             | SummaryBroken msg later \<Rightarrow>
                 \<lparr>cell_map = map_file, cell_waypoints = wps, cell_agent_count = agent_count,
                  status = ''error'', wall_time = Measured later, data = None,
                  cell_error = Some msg, cell_stdout = None\<rparr>)
          else
            \<lparr>cell_map = map_file, cell_waypoints = wps, cell_agent_count = agent_count,
             status = ''failed'', wall_time = Measured elapsed, data = None,
             cell_error = Some serr, cell_stdout = Some sout\<rparr>
      | CellTimeout \<Rightarrow>
          \<lparr>cell_map = map_file, cell_waypoints = wps, cell_agent_count = agent_count,
           status = ''timeout'', wall_time = Whole 300, data = None,
           cell_error = Some ''Experiment timed out after 5 minutes'', cell_stdout = None\<rparr>
      | CellRaised msg elapsed \<Rightarrow>
          \<lparr>cell_map = map_file, cell_waypoints = wps, cell_agent_count = agent_count,
           status = ''error'', wall_time = Measured elapsed, data = None,
           cell_error = Some msg, cell_stdout = None\<rparr>)"

text \<open>
  \<open>run_all_experiments\<close>: the cross product in the order of the three nested loops;
  \<open>cell_env\<close> is the environment's answer for a cell.
\<close>

definition run_all_experiments ::
  "(string \<Rightarrow> int \<Rightarrow> int \<Rightarrow> 'f cell_run) \<Rightarrow> string list \<Rightarrow> int list \<Rightarrow> int list \<Rightarrow> 'f cell list" where
  "run_all_experiments cell_env maps waypoint_configs counts =
     concat (map (\<lambda>m. concat (map (\<lambda>wp.
       map (\<lambda>n. run_single_experiment (cell_env m wp n) m wp n) counts) waypoint_configs)) maps)"

text \<open>String formatting: \<open>{s:<w}\<close> pads on the right, \<open>{n:,}\<close> groups digits by three.\<close>

definition ljust :: "nat \<Rightarrow> string \<Rightarrow> string" where
  "ljust w s = s @ replicate (w - length s) CHR '' ''"

fun group3 :: "string \<Rightarrow> string" where
  "group3 (a # b # c # d # rest) = a # b # c # CHR '','' # group3 (d # rest)"
| "group3 ds = ds"

definition with_commas :: "int \<Rightarrow> string" where
  "with_commas n =
     (if n < 0 then CHR ''-'' # rev (group3 (rev (digits_of (nat (- n)))))
      else rev (group3 (rev (digits_of (nat n)))))"

text \<open>
  One row of the results table of \<open>generate_comprehensive_report\<close>. \<open>fmt0\<close> and \<open>fmt1\<close>
  stand for the float formats \<open>.0f\<close> and \<open>.1f\<close>. A \<open>success\<close> record without data would
  raise KeyError.
\<close>

definition table_row :: "('f \<Rightarrow> string) \<Rightarrow> ('f \<Rightarrow> string) \<Rightarrow> 'f cell \<Rightarrow> error + string" where
  "table_row fmt0 fmt1 result =
     (let shown_map = take 19 (cell_map result);
          shown_status = take 9 (status result);
          metrics =
            (if status result = ''success'' then
               (case data result of
                  None \<Rightarrow> Inl KeyError
                | Some d \<Rightarrow> Inr (fmt0 (total_runtime_ms d) @ ''ms'', with_commas (data_total_cost d),
                               fmt1 (avg_cost_per_agent d)))
             else Inr (''N/A'', ''N/A'', ''N/A''))
      in case metrics of
           Inl e \<Rightarrow> Inl e
         | Inr (runtime_str, cost_str, cost_per_agent) \<Rightarrow>
             Inr (ljust 20 shown_map @ '' '' @ ljust 3 (str_int (cell_waypoints result)) @ '' ''
                  @ ljust 7 (str_int (cell_agent_count result)) @ '' '' @ ljust 10 shown_status
                  @ '' '' @ ljust 10 runtime_str @ '' '' @ ljust 12 cost_str @ '' ''
                  @ ljust 12 cost_per_agent @ [LF]))"

fun table_rows :: "('f \<Rightarrow> string) \<Rightarrow> ('f \<Rightarrow> string) \<Rightarrow> 'f cell list \<Rightarrow> error + string list" where
  "table_rows fmt0 fmt1 [] = Inr []"
| "table_rows fmt0 fmt1 (result # rest) =
     (case table_row fmt0 fmt1 result of
        Inl e \<Rightarrow> Inl e
      | Inr row \<Rightarrow>
          (case table_rows fmt0 fmt1 rest of Inl e \<Rightarrow> Inl e | Inr rows \<Rightarrow> Inr (row # rows)))"

text \<open>
  \<open>generate_comprehensive_report\<close>: \<open>comprehensive_report.json\<close> is the dump of all cell
  records and is written first; of \<open>comprehensive_summary.txt\<close> the rows of the results
  table are modelled. The success rate divides by the number of results.
\<close>

record 'f report =
  report_json :: "'f cell list"
  results_table :: "error + string list"

definition generate_comprehensive_report ::
  "('f \<Rightarrow> string) \<Rightarrow> ('f \<Rightarrow> string) \<Rightarrow> 'f cell list \<Rightarrow> 'f report" where
  "generate_comprehensive_report fmt0 fmt1 all_results =
     \<lparr>report_json = all_results,
      results_table = (if all_results = [] then Inl ZeroDivisionError
                       else table_rows fmt0 fmt1 all_results)\<rparr>"

section \<open>Example inputs\<close>

text \<open>
  Concrete inputs at which the theorems below are instantiated. Elapsed times are
  natural numbers here.
\<close>

definition example_agent :: agent where
  "example_agent =
     \<lparr>start = (1, 2), goal = (9, 9), waypoints = [(3, 4), (5, 6)], K = 2, bucket_id = 0\<rparr>"

definition example_args :: args where
  "example_args =
     \<lparr>exe = ''build/main'', map_path = ''maps/m.map'', scen = ''s.scen'', num = None,
      multi_scale = False, seed = 42, timeout = 100, out = ''out''\<rparr>"

definition solved_run :: "nat solver_run" where
  "solved_run =
     \<lparr>child = Exited 0 [] [] 5,
      artifact = Some (''soc=12'' @ [LF] @ ''makespan=4'' @ [LF] @ ''solved=1'' @ [LF]),
      temp_out = ''/tmp/plan.yaml''\<rparr>"

definition steady_env :: "nat env" where
  "steady_env = \<lparr>solver = (\<lambda>n rq. solved_run), map_name = ''m.map'', map_dims = (8, 8)\<rparr>"

definition failing_env :: "nat env" where
  "failing_env =
     \<lparr>solver = (\<lambda>n rq. if n = 1 then solved_run\<lparr>child := TimeoutExpired\<rparr> else solved_run),
      map_name = ''m.map'', map_dims = (8, 8)\<rparr>"

definition parked_agent :: agent where
  "parked_agent = \<lparr>start = (1, 2), goal = (9, 9), waypoints = [], K = 0, bucket_id = 0\<rparr>"

text \<open>A scenario file with one agent line, which declares no waypoint.\<close>

definition example_scenario :: string where
  "example_scenario =
     ''0'' @ [TAB] @ ''m.map'' @ [TAB] @ ''8'' @ [TAB] @ ''8'' @ [TAB] @ ''1'' @ [TAB] @ ''2''
     @ [TAB] @ ''9'' @ [TAB] @ ''9'' @ [TAB] @ ''15'' @ [TAB] @ ''0'' @ [LF]"

definition timeout_env :: "nat env" where
  "timeout_env =
     \<lparr>solver = (\<lambda>n rq. solved_run\<lparr>child := TimeoutExpired\<rparr>),
      map_name = ''m.map'', map_dims = (8, 8)\<rparr>"

text \<open>A stand-in for the float formats, and cells of the matrix.\<close>

definition show_nat :: "nat \<Rightarrow> string" where
  "show_nat n = digits_of n"

definition missing_summary_cell :: "nat cell" where
  "missing_summary_cell =
     run_single_experiment (CellExited 0 ''done'' [] 5 SummaryMissing) ''ost003d'' 2 100"

definition failed_cell :: "nat cell" where
  "failed_cell =
     run_single_experiment (CellExited 1 ''Segment 0 failed!'' ''Traceback'' 5 SummaryMissing)
       ''ost003d'' 2 100"

definition timed_out_cell :: "nat cell" where
  "timed_out_cell = run_single_experiment CellTimeout ''ost003d'' 2 100"

definition start_world :: world where
  "start_world = \<lparr>calls = 0, trace = []\<rparr>"

section \<open>Properties\<close>

text \<open>
  C6: for all positive integers \<open>total_timeout\<close> and \<open>num_segments\<close>, the per-segment
  timeout of the experiment is \<open>max(1, total_timeout // num_segments)\<close>, with floor
  division.
\<close>

theorem per_segment_timeout_max:
  "0 < total_timeout \<Longrightarrow> 0 < segments \<Longrightarrow>
   per_segment_timeout total_timeout segments = max 1 (total_timeout div segments)
   \<and> segments * (total_timeout div segments) \<le> total_timeout
   \<and> total_timeout < segments * (total_timeout div segments + 1)"
proof -
  assume pos: "0 < total_timeout" "0 < segments"
  have split: "total_timeout = segments * (total_timeout div segments)
      + total_timeout mod segments"
    by simp
  have lo: "0 \<le> total_timeout mod segments" and hi: "total_timeout mod segments < segments"
    using pos by simp_all
  have expand: "segments * (total_timeout div segments + 1)
      = segments * (total_timeout div segments) + segments"
    by (simp add: algebra_simps)
  have a: "per_segment_timeout total_timeout segments = max 1 (total_timeout div segments)"
    by (simp add: per_segment_timeout_def Let_def max_def)
  have b: "segments * (total_timeout div segments) \<le> total_timeout"
    using split lo by linarith
  have c: "total_timeout < segments * (total_timeout div segments + 1)"
    using split hi expand by linarith
  show ?thesis using a b c by blast
qed

theorem per_segment_timeout_max_witness:
  "(0::int) < 100 \<and> (0::int) < 3 \<and> per_segment_timeout 100 3 = 33
   \<and> per_segment_timeout 2 3 = 1"
  using per_segment_timeout_max [of 100 3] per_segment_timeout_max [of 2 3] by simp

subsection \<open>Segment construction\<close>

lemma segment_start_goal_nat:
  "segment_start_goal a (int i) = Inr (three_case_rule a i)"
  by (cases "waypoints a")
    (auto simp: segment_start_goal_def three_case_rule_def getitem_def nat_diff_distrib' of_nat_diff)

lemma segment_lines_nat:
  "segment_lines agents (int i) m w h =
     Inr (concat (map (\<lambda>a. scenario_line a m w h (three_case_rule a i)) agents))"
  by (induction agents) (simp_all add: segment_start_goal_nat)

lemma create_segment_scenario_nat:
  "create_segment_scenario agents (int i) m w h =
     Inr (''version 1'' @ [LF]
          @ concat (map (\<lambda>a. scenario_line a m w h (three_case_rule a i)) agents))"
  by (simp add: create_segment_scenario_def segment_lines_nat)

subsection \<open>Scenario parsing\<close>

text \<open>A line on which the loop does not advance is read again and again.\<close>

lemma parse_loop_stuck:
  assumes "i < length lines" "parse_line (lines ! i) = Stuck"
  shows "parse_loop lines i agents = None"
proof (rule ccontr)
  assume "parse_loop lines i agents \<noteq> None"
  then obtain r where r: "parse_loop lines i agents = Some r" by auto
  have "\<not> (i < length lines \<and> parse_line (lines ! i) = Stuck)"
    by (rule parse_loop.raw_induct
          [where P = "\<lambda>lines i agents r. \<not> (i < length lines \<and> parse_line (lines ! i) = Stuck)",
            OF _ r])
       (auto split: if_splits line_outcome.splits)
  with assms show False by simp
qed

text \<open>
  C4: \<open>parse_waypoint_scenario\<close> is claimed to return on every file, going past a line
  that declares \<open>K\<close> waypoints without \<open>2 * K\<close> trailing fields. On a file whose only
  line has ten fields and declares one waypoint, the source does not return: the
  \<open>continue\<close> after the warning is taken with \<open>i\<close> unchanged.
\<close>

theorem parse_waypoint_scenario_short_line_diverges:
  "parse_waypoint_scenario
     (''0'' @ [TAB] @ ''m.map'' @ [TAB] @ ''8'' @ [TAB] @ ''8'' @ [TAB] @ ''0'' @ [TAB] @ ''0''
      @ [TAB] @ ''1'' @ [TAB] @ ''1'' @ [TAB] @ ''2'' @ [TAB] @ ''1'' @ [LF]) = None"
proof -
  let ?l = "''0'' @ [TAB] @ ''m.map'' @ [TAB] @ ''8'' @ [TAB] @ ''8'' @ [TAB] @ ''0'' @ [TAB] @ ''0''
      @ [TAB] @ ''1'' @ [TAB] @ ''1'' @ [TAB] @ ''2'' @ [TAB] @ ''1'' @ [LF]"
  have stuck: "parse_line ?l = Stuck"
    by (simp add: parse_line_def strip_def is_space_def TAB_def LF_def py_int_def is_int_space_def is_digit_def
        digit_val_def Let_def)
  have lines: "readlines ?l = [?l]"
    by (simp add: readlines_def TAB_def LF_def CR_def)
  have header: "\<not> startswith (strip ?l) ''version''"
    by (simp add: startswith_def strip_def is_space_def TAB_def LF_def)
  have "parse_loop [?l] 0 [] = None"
    by (rule parse_loop_stuck) (use stuck in simp_all)
  then show ?thesis
    unfolding parse_waypoint_scenario_def lines Let_def using header by simp
qed

subsection \<open>What the builder writes, read by the parser\<close>

lemma digit_char_in: "d < 10 \<Longrightarrow> digit_char d \<in> set ''0123456789''"
  unfolding digit_char_def by (rule nth_mem) simp

lemma digits_of_chars: "set (digits_of n) \<subseteq> set ''0123456789''"
proof (induction n rule: digits_of.induct)
  case (1 n)
  show ?case
  proof (cases "n < 10")
    case True
    then have "digits_of n = [digit_char n]" by (subst digits_of.simps) simp
    then show ?thesis using digit_char_in [OF True] by simp
  next
    case False
    then have eq: "digits_of n = digits_of (n div 10) @ [digit_char (n mod 10)]"
      by (subst digits_of.simps) simp
    have "digit_char (n mod 10) \<in> set ''0123456789''" by (rule digit_char_in) simp
    moreover have "set (digits_of (n div 10)) \<subseteq> set ''0123456789''" using 1 False by blast
    ultimately show ?thesis unfolding eq by simp
  qed
qed

lemma digits_of_nonempty: "digits_of n \<noteq> []"
  by (subst digits_of.simps) simp

lemma str_int_chars: "set (str_int n) \<subseteq> set ''-0123456789''"
proof -
  have sub: "set ''0123456789'' \<subseteq> set ''-0123456789''" by simp
  have digits: "set (digits_of k) \<subseteq> set ''-0123456789''" for k
    by (rule subset_trans [OF digits_of_chars sub])
  show ?thesis
  proof (cases "n < 0")
    case True
    then have eq: "str_int n = CHR ''-'' # digits_of (nat (- n))" by (simp add: str_int_def)
    have "CHR ''-'' \<in> set ''-0123456789''" by simp
    then show ?thesis unfolding eq using digits [of "nat (- n)"] by (simp only: set_simps insert_subset)
  next
    case False
    then have eq: "str_int n = digits_of (nat n)" by (simp add: str_int_def)
    show ?thesis unfolding eq by (rule digits)
  qed
qed

lemma str_int_nonempty: "str_int n \<noteq> []"
  by (simp add: str_int_def digits_of_nonempty)

lemma sign_digit_plain:
  "c \<in> set ''-0123456789'' \<Longrightarrow> \<not> is_space c \<and> c \<noteq> TAB \<and> c \<noteq> LF \<and> c \<noteq> CR"
  by (auto simp: is_space_def TAB_def LF_def CR_def)

lemma str_int_plain:
  "TAB \<notin> set (str_int n)" "LF \<notin> set (str_int n)" "CR \<notin> set (str_int n)"
proof -
  have *: "\<forall>c \<in> set (str_int n). c \<noteq> TAB \<and> c \<noteq> LF \<and> c \<noteq> CR"
    using str_int_chars [of n] sign_digit_plain by (meson subsetD)
  show "TAB \<notin> set (str_int n)" using * by blast
  show "LF \<notin> set (str_int n)" using * by blast
  show "CR \<notin> set (str_int n)" using * by blast
qed

lemma separators_distinct:
  "TAB \<noteq> LF" "TAB \<noteq> CR" "LF \<noteq> CR" "LF \<noteq> TAB" "CR \<noteq> TAB" "CR \<noteq> LF"
  by (simp_all add: TAB_def LF_def CR_def)

lemma str_int_ends: "\<not> is_space (hd (str_int n))" "\<not> is_space (last (str_int n))"
proof -
  have "hd (str_int n) \<in> set (str_int n)" "last (str_int n) \<in> set (str_int n)"
    using str_int_nonempty [of n] by simp_all
  then have "hd (str_int n) \<in> set ''-0123456789''" "last (str_int n) \<in> set ''-0123456789''"
    using str_int_chars [of n] by (meson subsetD)+
  then show "\<not> is_space (hd (str_int n))" "\<not> is_space (last (str_int n))"
    using sign_digit_plain by blast+
qed

lemma split_nonempty: "split s c \<noteq> []"
  by (induction s) (auto split: list.splits)

lemma length_split: "length (split s c) = Suc (count_list s c)"
proof (induction s)
  case Nil
  show ?case by simp
next
  case (Cons x xs)
  then show ?case using split_nonempty [of xs c] by (auto split: list.splits)
qed

lemma strip_line:
  assumes "l \<noteq> []" "\<not> is_space (hd l)" "\<not> is_space (last l)"
  shows "strip (l @ [LF]) = l"
proof -
  have front: "dropWhile is_space (l @ [LF]) = l @ [LF]"
    using assms by (cases l) simp_all
  have sp: "is_space LF" by (simp add: is_space_def LF_def)
  have tail: "dropWhile is_space (rev l) = rev l"
    using assms by (cases "rev l") (simp_all add: hd_rev)
  show ?thesis by (simp add: strip_def front sp tail)
qed

lemma universal_newlines_id: "CR \<notin> set s \<Longrightarrow> universal_newlines s = s"
  by (induction s rule: universal_newlines.induct) auto

lemma cut_lines_line: "LF \<notin> set l \<Longrightarrow> cut_lines (l @ LF # rest) = (l @ [LF]) # cut_lines rest"
  by (induction l) auto

lemma parse_loop_all_skipped:
  "(\<And>j. i \<le> j \<Longrightarrow> j < length lines \<Longrightarrow> parse_line (lines ! j) = Skip)
   \<Longrightarrow> parse_loop lines i agents = Some (Inr agents)"
proof (induction "length lines - i" arbitrary: i)
  case 0
  then show ?case by (subst parse_loop.simps) simp
next
  case (Suc n)
  then have "i < length lines" by simp
  moreover have "parse_line (lines ! i) = Skip" using Suc.prems \<open>i < length lines\<close> by simp
  moreover have "parse_loop lines (i + 1) agents = Some (Inr agents)"
    using Suc by (intro Suc.hyps(1)) simp_all
  ultimately show ?case by (subst parse_loop.simps) simp
qed

text \<open>The line of one agent is a non-empty text without a newline, then one newline.\<close>

lemma scenario_line_shape:
  assumes "TAB \<notin> set m"
  shows "\<exists>l. scenario_line a m w h sg = l @ [LF] \<and> l \<noteq> [] \<and> \<not> is_space (hd l)
    \<and> \<not> is_space (last l) \<and> count_list l TAB = 8 \<and> (LF \<notin> set m \<longrightarrow> LF \<notin> set l)
    \<and> (CR \<notin> set m \<longrightarrow> CR \<notin> set l)"
proof -
  obtain s g where sg: "sg = (s, g)" by (cases sg)
  let ?l = "str_int (bucket_id a) @ [TAB] @ m @ [TAB] @ str_int w @ [TAB]
         @ str_int h @ [TAB] @ str_int (fst s) @ [TAB] @ str_int (snd s) @ [TAB]
         @ str_int (fst g) @ [TAB] @ str_int (snd g) @ [TAB] @ str_int (\<bar>fst s - fst g\<bar> + \<bar>snd s - snd g\<bar>)"
  have eq: "scenario_line a m w h sg = ?l @ [LF]"
    by (simp add: scenario_line_def sg Let_def)
  have ne: "?l \<noteq> []" by (simp add: str_int_nonempty)
  have h: "hd ?l = hd (str_int (bucket_id a))" by (simp add: str_int_nonempty)
  have l: "last ?l = last (str_int (\<bar>fst s - fst g\<bar> + \<bar>snd s - snd g\<bar>))" by (simp add: str_int_nonempty)
  have z: "\<And>n. count_list (str_int n) TAB = 0" by (simp add: str_int_plain)
  have cnt: "count_list ?l TAB = 8" using assms by (simp add: z)
  have nl: "LF \<notin> set m \<longrightarrow> LF \<notin> set ?l" by (simp add: str_int_plain separators_distinct)
  have cr: "CR \<notin> set m \<longrightarrow> CR \<notin> set ?l" by (simp add: str_int_plain separators_distinct)
  show ?thesis
    using eq ne h l cnt nl cr str_int_ends by (intro exI [of _ ?l]) (simp del: append_assoc)
qed

lemma parse_line_scenario_line:
  assumes "TAB \<notin> set m"
  shows "length (split (strip (scenario_line a m w h sg)) TAB) = 9
    \<and> parse_line (scenario_line a m w h sg) = Skip"
proof -
  obtain l where l: "scenario_line a m w h sg = l @ [LF]" "l \<noteq> []" "\<not> is_space (hd l)"
    "\<not> is_space (last l)" "count_list l TAB = 8"
    using scenario_line_shape [OF assms] by blast
  have "strip (scenario_line a m w h sg) = l" using l by (simp add: strip_line)
  then show ?thesis using l by (simp add: parse_line_def length_split)
qed


lemma segment_lines_rows:
  "segment_lines agents idx m w h = Inr body \<Longrightarrow>
   \<exists>sgs. length sgs = length agents
     \<and> body = concat (map2 (\<lambda>b sg. scenario_line b m w h sg) agents sgs)"
proof (induction agents arbitrary: body)
  case Nil
  then show ?case by simp
next
  case (Cons a as)
  from Cons.prems obtain sg rest where sg: "segment_start_goal a idx = Inr sg"
    and rest: "segment_lines as idx m w h = Inr rest"
    and body: "body = scenario_line a m w h sg @ rest"
    by (auto split: sum.splits)
  from Cons.IH [OF rest] obtain sgs where sgs: "length sgs = length as"
    "rest = concat (map2 (\<lambda>b sg. scenario_line b m w h sg) as sgs)" by blast
  show ?case using sgs body by (intro exI [of _ "sg # sgs"]) simp
qed

lemma cut_lines_rows:
  assumes "TAB \<notin> set m" "LF \<notin> set m"
  shows "length sgs = length agents \<Longrightarrow>
    cut_lines (concat (map2 (\<lambda>b sg. scenario_line b m w h sg) agents sgs))
      = map2 (\<lambda>b sg. scenario_line b m w h sg) agents sgs"
proof (induction agents arbitrary: sgs)
  case Nil
  then show ?case by simp
next
  case (Cons a as)
  then obtain sg rest where sgs: "sgs = sg # rest" "length rest = length as"
    by (cases sgs) auto
  obtain l where l: "scenario_line a m w h sg = l @ [LF]" "LF \<notin> set l"
    using scenario_line_shape [OF assms(1), of a w h sg] assms(2) by blast
  show ?case using Cons.IH [OF sgs(2)] l by (simp add: sgs cut_lines_line)
qed

lemma rows_no_CR:
  assumes "TAB \<notin> set m" "CR \<notin> set m"
  shows "CR \<notin> set (concat (map2 (\<lambda>b sg. scenario_line b m w h sg) agents sgs))"
proof -
  have "CR \<notin> set (scenario_line b m w h sg)" for b sg
    using scenario_line_shape [OF assms(1), of b w h sg] assms(2)
    by (auto simp: separators_distinct)
  then show ?thesis by (auto dest!: set_zip_leftD set_zip_rightD simp: in_set_zip)
qed

lemma header_line:
  "CR \<notin> set (''version 1'' @ [LF])" "LF \<notin> set ''version 1''"
  "startswith (strip (''version 1'' @ [LF])) ''version''"
  by (simp_all add: CR_def LF_def startswith_def strip_def is_space_def)

text \<open>\<open>str\<close> of an int is read back by \<open>int\<close>; a line is cut at its tabs.\<close>

lemma split_no_sep: "c \<notin> set a \<Longrightarrow> split a c = [a]"
  by (induction a) auto

lemma split_at_sep: "c \<notin> set a \<Longrightarrow> split (a @ c # rest) c = a # split rest c"
  by (induction a) auto

lemma digit_char_value: "d < 10 \<Longrightarrow> is_digit (digit_char d) \<and> digit_val (digit_char d) = d"
proof -
  assume "d < 10"
  then have "d = 0 \<or> d = 1 \<or> d = 2 \<or> d = 3 \<or> d = 4 \<or> d = 5 \<or> d = 6 \<or> d = 7
    \<or> d = 8 \<or> d = 9" by arith
  then show ?thesis
    by (elim disjE) (simp_all add: digit_char_def is_digit_def digit_val_def)
qed

lemma py_digits_digits_of:
  "py_digits p (digits_of n @ rest) 0 = py_digits True rest n"
proof (induction n arbitrary: p rest rule: digits_of.induct)
  case (1 n)
  show ?case
  proof (cases "n < 10")
    case True
    then have "digits_of n = [digit_char n]" by (subst digits_of.simps) simp
    then show ?thesis using digit_char_value [OF True] by simp
  next
    case False
    then have eq: "digits_of n = digits_of (n div 10) @ [digit_char (n mod 10)]"
      by (subst digits_of.simps) simp
    have d: "is_digit (digit_char (n mod 10))" "digit_val (digit_char (n mod 10)) = n mod 10"
      using digit_char_value [of "n mod 10"] by simp_all
    have "py_digits p (digits_of n @ rest) 0
        = py_digits p (digits_of (n div 10) @ (digit_char (n mod 10) # rest)) 0"
      by (simp add: eq)
    also have "\<dots> = py_digits True (digit_char (n mod 10) # rest) (n div 10)"
      using 1 [OF False] by simp
    also have "\<dots> = py_digits True rest (10 * (n div 10) + n mod 10)"
      using d by simp
    also have "10 * (n div 10) + n mod 10 = n" by simp
    finally show ?thesis .
  qed
qed

lemma int_space_is_space: "is_int_space c \<Longrightarrow> is_space c"
  by (auto simp: is_int_space_def is_space_def Let_def)

lemma py_int_str_int: "py_int (str_int n) = Inr n"
proof -
  have ne: "str_int n \<noteq> []" by (rule str_int_nonempty)
  have h: "\<not> is_int_space (hd (str_int n))" and l: "\<not> is_int_space (last (str_int n))"
    using str_int_ends [of n] int_space_is_space by blast+
  have front: "dropWhile is_int_space (str_int n) = str_int n"
    using ne h by (cases "str_int n") simp_all
  have tail: "dropWhile is_int_space (rev (str_int n)) = rev (str_int n)"
    using ne l by (cases "rev (str_int n)") (simp_all add: hd_rev)
  have stripped: "rev (dropWhile is_int_space (rev (dropWhile is_int_space (str_int n)))) = str_int n"
    by (simp add: front tail)
  show ?thesis
  proof (cases "n < 0")
    case True
    then have eq: "str_int n = CHR ''-'' # digits_of (nat (- n))" by (simp add: str_int_def)
    have "py_digits False (digits_of (nat (- n))) 0 = Some (nat (- n))"
      using py_digits_digits_of [of False "nat (- n)" "[]"] by simp
    then show ?thesis using True by (simp only: py_int_def stripped) (simp add: eq)
  next
    case False
    then have eq: "str_int n = digits_of (nat n)" by (simp add: str_int_def)
    obtain c cs where cs: "digits_of (nat n) = c # cs"
      using digits_of_nonempty [of "nat n"] by (cases "digits_of (nat n)") auto
    then have "c \<in> set ''0123456789''" using digits_of_chars [of "nat n"] by auto
    then have sign: "c \<noteq> CHR ''-''" "c \<noteq> CHR ''+''" by auto
    have "py_digits False (c # cs) 0 = Some (nat n)"
      using py_digits_digits_of [of False "nat n" "[]"] cs by simp
    then show ?thesis using False sign by (simp only: py_int_def stripped) (simp add: eq cs)
  qed
qed

lemma scenario_line_fields:
  assumes "TAB \<notin> set m"
  shows "split (strip (scenario_line a m w h (s, g))) TAB =
    [str_int (bucket_id a), m, str_int w, str_int h, str_int (fst s), str_int (snd s),
     str_int (fst g), str_int (snd g), str_int (\<bar>fst s - fst g\<bar> + \<bar>snd s - snd g\<bar>)]"
proof -
  let ?l = "str_int (bucket_id a) @ [TAB] @ m @ [TAB] @ str_int w @ [TAB]
         @ str_int h @ [TAB] @ str_int (fst s) @ [TAB] @ str_int (snd s) @ [TAB]
         @ str_int (fst g) @ [TAB] @ str_int (snd g) @ [TAB] @ str_int (\<bar>fst s - fst g\<bar> + \<bar>snd s - snd g\<bar>)"
  have eq: "scenario_line a m w h (s, g) = ?l @ [LF]"
    by (simp add: scenario_line_def Let_def)
  have ne: "?l \<noteq> []" by (simp add: str_int_nonempty)
  have hd: "hd ?l = hd (str_int (bucket_id a))" by (simp add: str_int_nonempty)
  have la: "last ?l = last (str_int (\<bar>fst s - fst g\<bar> + \<bar>snd s - snd g\<bar>))"
    by (simp add: str_int_nonempty)
  have "strip (?l @ [LF]) = ?l"
    by (rule strip_line [OF ne]) (simp_all only: hd la str_int_ends not_False_eq_True)
  then have st: "strip (scenario_line a m w h (s, g)) = ?l" by (simp only: eq)
  show ?thesis
    unfolding st using assms
    by (simp add: split_at_sep split_no_sep str_int_plain)
qed


lemma scenario_line_text:
  "scenario_line b m w h sg =
     str_int (bucket_id b) @ [TAB] @ m @ [TAB] @ str_int w @ [TAB] @ str_int h @ [TAB]
     @ str_int (fst (fst sg)) @ [TAB] @ str_int (snd (fst sg)) @ [TAB]
     @ str_int (fst (snd sg)) @ [TAB] @ str_int (snd (snd sg)) @ [TAB]
     @ str_int (\<bar>fst (fst sg) - fst (snd sg)\<bar> + \<bar>snd (fst sg) - snd (snd sg)\<bar>) @ [LF]"
  by (cases sg) (simp add: scenario_line_def Let_def)

text \<open>
  C1: for every agent and every segment index, \<open>create_segment_scenario\<close> gives the agent
  its start and goal by the three-case rule, where \<open>K\<close> is the number of the agent's
  waypoints: in segment 0 the start is the original start and the goal the first waypoint
  (the original goal if there is none); for \<open>1 \<le> segment_idx \<le> K\<close> the start is
  \<open>waypoints[segment_idx - 1]\<close> and the goal \<open>waypoints[segment_idx]\<close> if
  \<open>segment_idx < K\<close>, else the original goal; beyond \<open>K\<close> both are the original goal.
  The text written is the header followed by one line per agent, in order; the line of an
  agent is its bucket, the map name, the map width and height, then \<open>str\<close> of the start
  column, the start row, the goal column and the goal row of this pair, then their Manhattan
  distance, separated by tabs. Cut at the tabs, a line has these nine fields, and \<open>int\<close>
  of the fifth to the eighth is the start and the goal again.
\<close>

theorem create_segment_scenario_three_cases:
  "(segment_idx = 0 \<longrightarrow>
      segment_start_goal a segment_idx =
        Inr (start a, if waypoints a \<noteq> [] then waypoints a ! 0 else goal a))
   \<and> (1 \<le> segment_idx \<and> segment_idx \<le> int (length (waypoints a)) \<longrightarrow>
      segment_start_goal a segment_idx =
        Inr (waypoints a ! nat (segment_idx - 1),
             if segment_idx < int (length (waypoints a)) then waypoints a ! nat segment_idx
             else goal a))
   \<and> (int (length (waypoints a)) < segment_idx \<longrightarrow>
      segment_start_goal a segment_idx = Inr (goal a, goal a))
   \<and> (0 \<le> segment_idx \<longrightarrow>
      (\<exists>sgs. map (\<lambda>b. segment_start_goal b segment_idx) agents = map Inr sgs
         \<and> create_segment_scenario agents segment_idx map_filename map_width map_height =
             Inr (''version 1'' @ [LF]
                  @ concat (map2 (\<lambda>b sg.
                      str_int (bucket_id b) @ [TAB] @ map_filename @ [TAB]
                      @ str_int map_width @ [TAB] @ str_int map_height @ [TAB]
                      @ str_int (fst (fst sg)) @ [TAB] @ str_int (snd (fst sg)) @ [TAB]
                      @ str_int (fst (snd sg)) @ [TAB] @ str_int (snd (snd sg)) @ [TAB]
                      @ str_int (\<bar>fst (fst sg) - fst (snd sg)\<bar> + \<bar>snd (fst sg) - snd (snd sg)\<bar>)
                      @ [LF]) agents sgs))))
   \<and> (TAB \<notin> set map_filename \<longrightarrow>
      split (strip (scenario_line a map_filename map_width map_height (s, g))) TAB =
        [str_int (bucket_id a), map_filename, str_int map_width, str_int map_height,
         str_int (fst s), str_int (snd s), str_int (fst g), str_int (snd g),
         str_int (\<bar>fst s - fst g\<bar> + \<bar>snd s - snd g\<bar>)]
      \<and> map py_int (take 4 (drop 4
            (split (strip (scenario_line a map_filename map_width map_height (s, g))) TAB))) =
          [Inr (fst s), Inr (snd s), Inr (fst g), Inr (snd g)])"
proof -
  have first: "segment_idx = 0 \<longrightarrow>
      segment_start_goal a segment_idx =
        Inr (start a, if waypoints a \<noteq> [] then waypoints a ! 0 else goal a)"
    by (cases "waypoints a") (auto simp: segment_start_goal_def getitem_def)
  have middle: "1 \<le> segment_idx \<and> segment_idx \<le> int (length (waypoints a)) \<longrightarrow>
      segment_start_goal a segment_idx =
        Inr (waypoints a ! nat (segment_idx - 1),
             if segment_idx < int (length (waypoints a)) then waypoints a ! nat segment_idx
             else goal a)"
    by (auto simp: segment_start_goal_def getitem_def)
  have parked: "int (length (waypoints a)) < segment_idx \<longrightarrow>
      segment_start_goal a segment_idx = Inr (goal a, goal a)"
    by (auto simp: segment_start_goal_def)
  have body: "0 \<le> segment_idx \<longrightarrow>
      (\<exists>sgs. map (\<lambda>b. segment_start_goal b segment_idx) agents = map Inr sgs
         \<and> create_segment_scenario agents segment_idx map_filename map_width map_height =
             Inr (''version 1'' @ [LF]
                  @ concat (map2 (\<lambda>b sg.
                      str_int (bucket_id b) @ [TAB] @ map_filename @ [TAB]
                      @ str_int map_width @ [TAB] @ str_int map_height @ [TAB]
                      @ str_int (fst (fst sg)) @ [TAB] @ str_int (snd (fst sg)) @ [TAB]
                      @ str_int (fst (snd sg)) @ [TAB] @ str_int (snd (snd sg)) @ [TAB]
                      @ str_int (\<bar>fst (fst sg) - fst (snd sg)\<bar> + \<bar>snd (fst sg) - snd (snd sg)\<bar>)
                      @ [LF]) agents sgs)))"
  proof
    assume "0 \<le> segment_idx"
    then obtain i where i: "segment_idx = int i"
      using nonneg_int_cases by blast
    let ?sgs = "map (\<lambda>b. three_case_rule b i) agents"
    have pairs: "map (\<lambda>b. segment_start_goal b segment_idx) agents = map Inr ?sgs"
      by (simp add: i segment_start_goal_nat)
    have lines: "map2 (\<lambda>b sg. scenario_line b map_filename map_width map_height sg) agents ?sgs
        = map (\<lambda>b. scenario_line b map_filename map_width map_height (three_case_rule b i)) agents"
      by (induction agents) simp_all
    have made: "create_segment_scenario agents segment_idx map_filename map_width map_height =
        Inr (''version 1'' @ [LF]
             @ concat (map2 (\<lambda>b sg. scenario_line b map_filename map_width map_height sg)
                         agents ?sgs))"
      using create_segment_scenario_nat [of agents i map_filename map_width map_height] i lines
      by simp
    show "\<exists>sgs. map (\<lambda>b. segment_start_goal b segment_idx) agents = map Inr sgs
         \<and> create_segment_scenario agents segment_idx map_filename map_width map_height =
             Inr (''version 1'' @ [LF]
                  @ concat (map2 (\<lambda>b sg.
                      str_int (bucket_id b) @ [TAB] @ map_filename @ [TAB]
                      @ str_int map_width @ [TAB] @ str_int map_height @ [TAB]
                      @ str_int (fst (fst sg)) @ [TAB] @ str_int (snd (fst sg)) @ [TAB]
                      @ str_int (fst (snd sg)) @ [TAB] @ str_int (snd (snd sg)) @ [TAB]
                      @ str_int (\<bar>fst (fst sg) - fst (snd sg)\<bar> + \<bar>snd (fst sg) - snd (snd sg)\<bar>)
                      @ [LF]) agents sgs))"
      using pairs made [unfolded scenario_line_text]
      by (intro exI [of _ ?sgs] conjI)
  qed
  have fields: "TAB \<notin> set map_filename \<longrightarrow>
      split (strip (scenario_line a map_filename map_width map_height (s, g))) TAB =
        [str_int (bucket_id a), map_filename, str_int map_width, str_int map_height,
         str_int (fst s), str_int (snd s), str_int (fst g), str_int (snd g),
         str_int (\<bar>fst s - fst g\<bar> + \<bar>snd s - snd g\<bar>)]
      \<and> map py_int (take 4 (drop 4
            (split (strip (scenario_line a map_filename map_width map_height (s, g))) TAB))) =
          [Inr (fst s), Inr (snd s), Inr (fst g), Inr (snd g)]"
  proof
    assume "TAB \<notin> set map_filename"
    from scenario_line_fields [OF this, of a map_width map_height s g]
    show "split (strip (scenario_line a map_filename map_width map_height (s, g))) TAB =
        [str_int (bucket_id a), map_filename, str_int map_width, str_int map_height,
         str_int (fst s), str_int (snd s), str_int (fst g), str_int (snd g),
         str_int (\<bar>fst s - fst g\<bar> + \<bar>snd s - snd g\<bar>)]
      \<and> map py_int (take 4 (drop 4
            (split (strip (scenario_line a map_filename map_width map_height (s, g))) TAB))) =
          [Inr (fst s), Inr (snd s), Inr (fst g), Inr (snd g)]"
      by (simp add: py_int_str_int)
  qed
  show ?thesis using first middle parked body fields by (intro conjI)
qed

theorem create_segment_scenario_three_cases_witness:
  "segment_start_goal example_agent 0 = Inr ((1, 2), (3, 4))
   \<and> segment_start_goal parked_agent 0 = Inr ((1, 2), (9, 9))
   \<and> segment_start_goal example_agent 1 = Inr ((3, 4), (5, 6))
   \<and> segment_start_goal example_agent 2 = Inr ((5, 6), (9, 9))
   \<and> segment_start_goal example_agent 3 = Inr ((9, 9), (9, 9))
   \<and> create_segment_scenario [example_agent, parked_agent] 1 ''m.map'' 8 8 =
       Inr (''version 1'' @ [LF]
            @ ''0'' @ [TAB] @ ''m.map'' @ [TAB] @ ''8'' @ [TAB] @ ''8'' @ [TAB] @ ''3'' @ [TAB]
            @ ''4'' @ [TAB] @ ''5'' @ [TAB] @ ''6'' @ [TAB] @ ''4'' @ [LF]
            @ ''0'' @ [TAB] @ ''m.map'' @ [TAB] @ ''8'' @ [TAB] @ ''8'' @ [TAB] @ ''9'' @ [TAB]
            @ ''9'' @ [TAB] @ ''9'' @ [TAB] @ ''9'' @ [TAB] @ ''0'' @ [LF])
   \<and> map py_int (take 4 (drop 4
         (split (strip (scenario_line example_agent ''m.map'' 8 8 ((3, 4), (5, 6)))) TAB))) =
       [Inr 3, Inr 4, Inr 5, Inr 6]"
proof -
  have a: "segment_start_goal example_agent 0 = Inr ((1, 2), (3, 4))"
    using create_segment_scenario_three_cases [of 0 example_agent, THEN conjunct1] by (simp add: example_agent_def)
  have b: "segment_start_goal parked_agent 0 = Inr ((1, 2), (9, 9))"
    using create_segment_scenario_three_cases [of 0 parked_agent, THEN conjunct1] by (simp add: parked_agent_def)
  have c: "segment_start_goal example_agent 1 = Inr ((3, 4), (5, 6))"
    using create_segment_scenario_three_cases [of 1 example_agent, THEN conjunct2, THEN conjunct1]
    by (simp add: example_agent_def)
  have d: "segment_start_goal example_agent 2 = Inr ((5, 6), (9, 9))"
    using create_segment_scenario_three_cases [of 2 example_agent, THEN conjunct2, THEN conjunct1]
    by (simp add: example_agent_def)
  have e: "segment_start_goal example_agent 3 = Inr ((9, 9), (9, 9))"
    using create_segment_scenario_three_cases [of 3 example_agent, THEN conjunct2, THEN conjunct2, THEN conjunct1]
    by (simp add: example_agent_def)
  have f: "create_segment_scenario [example_agent, parked_agent] 1 ''m.map'' 8 8 =
       Inr (''version 1'' @ [LF]
            @ ''0'' @ [TAB] @ ''m.map'' @ [TAB] @ ''8'' @ [TAB] @ ''8'' @ [TAB] @ ''3'' @ [TAB]
            @ ''4'' @ [TAB] @ ''5'' @ [TAB] @ ''6'' @ [TAB] @ ''4'' @ [LF]
            @ ''0'' @ [TAB] @ ''m.map'' @ [TAB] @ ''8'' @ [TAB] @ ''8'' @ [TAB] @ ''9'' @ [TAB]
            @ ''9'' @ [TAB] @ ''9'' @ [TAB] @ ''9'' @ [TAB] @ ''0'' @ [LF])"
    by (simp add: create_segment_scenario_def segment_start_goal_def getitem_def
        scenario_line_def str_int_def digits_of.simps digit_char_def example_agent_def
        parked_agent_def)
  have tab: "TAB \<notin> set ''m.map''" by (simp add: TAB_def)
  have g: "map py_int (take 4 (drop 4
         (split (strip (scenario_line example_agent ''m.map'' 8 8 ((3, 4), (5, 6)))) TAB))) =
       [Inr 3, Inr 4, Inr 5, Inr 6]"
    using create_segment_scenario_three_cases [where a = example_agent and map_filename = "''m.map''" and map_width = 8
        and map_height = 8 and s = "(3, 4)" and g = "(5, 6)",
        THEN conjunct2, THEN conjunct2, THEN conjunct2, THEN conjunct2, rule_format, OF tab,
        THEN conjunct2]
    by simp
  show ?thesis using a b c d e f g by (intro conjI)
qed

text \<open>
  C10: for every agent list and segment index, and a map file name without a tab or a
  line break, the text that \<open>create_segment_scenario\<close> writes is the
  \<open>version 1\<close> header line followed by exactly one line of 9 tab-delimited fields per
  agent (no waypoint count is written); \<open>parse_waypoint_scenario\<close> skips every one of
  these lines and returns the empty agent list. For a segment index that is not negative
  the builder does produce a text.
\<close>

theorem create_segment_scenario_not_parsed_back:
  assumes "TAB \<notin> set map_filename" "LF \<notin> set map_filename" "CR \<notin> set map_filename"
  shows "(0 \<le> segment_idx \<longrightarrow>
      (\<exists>text. create_segment_scenario agents segment_idx map_filename map_width map_height = Inr text))
   \<and> (\<forall>text. create_segment_scenario agents segment_idx map_filename map_width map_height = Inr text
      \<longrightarrow> (\<exists>rows. readlines text = (''version 1'' @ [LF]) # rows \<and> length rows = length agents
             \<and> (\<forall>r \<in> set rows. length (split (strip r) TAB) = 9 \<and> parse_line r = Skip))
          \<and> parse_waypoint_scenario text = Some (Inr []))"
proof (intro conjI allI impI)
  assume "0 \<le> segment_idx"
  then obtain i where "segment_idx = int i" using nonneg_int_cases by blast
  then show "\<exists>text. create_segment_scenario agents segment_idx map_filename map_width map_height = Inr text"
    by (simp add: create_segment_scenario_nat)
next
  fix content
  assume made: "create_segment_scenario agents segment_idx map_filename map_width map_height = Inr content"
  then obtain body where body: "segment_lines agents segment_idx map_filename map_width map_height = Inr body"
    and whole: "content = (''version 1'' @ [LF]) @ body"
    by (auto simp: create_segment_scenario_def split: sum.splits)
  from segment_lines_rows [OF body] obtain sgs where sgs: "length sgs = length agents"
    "body = concat (map2 (\<lambda>b sg. scenario_line b map_filename map_width map_height sg) agents sgs)"
    by blast
  let ?rows = "map2 (\<lambda>b sg. scenario_line b map_filename map_width map_height sg) agents sgs"
  have "CR \<notin> set content"
    using rows_no_CR [OF assms(1) assms(3), of map_width map_height agents sgs] header_line(1)
    by (simp add: whole sgs(2))
  then have "readlines content = cut_lines content"
    by (simp add: readlines_def universal_newlines_id)
  also have "\<dots> = (''version 1'' @ [LF]) # cut_lines body"
    unfolding whole using cut_lines_line [OF header_line(2), of body] by simp
  also have "cut_lines body = ?rows"
    unfolding sgs(2) by (rule cut_lines_rows [OF assms(1) assms(2) sgs(1)])
  finally have lines: "readlines content = (''version 1'' @ [LF]) # ?rows" .
  have skipped: "length (split (strip r) TAB) = 9 \<and> parse_line r = Skip" if "r \<in> set ?rows" for r
    using that parse_line_scenario_line [OF assms(1)] by (auto simp: in_set_zip)
  have "length ?rows = length agents" using sgs(1) by simp
  with lines skipped
  show "\<exists>rows. readlines content = (''version 1'' @ [LF]) # rows \<and> length rows = length agents
             \<and> (\<forall>r \<in> set rows. length (split (strip r) TAB) = 9 \<and> parse_line r = Skip)"
    by blast
  have "parse_loop ((''version 1'' @ [LF]) # ?rows) 1 [] = Some (Inr [])"
  proof (rule parse_loop_all_skipped)
    fix j assume "1 \<le> j" "j < length ((''version 1'' @ [LF]) # ?rows)"
    then have "((''version 1'' @ [LF]) # ?rows) ! j = ?rows ! (j - 1)" and "j - 1 < length ?rows"
      by (cases j; simp)+
    then have "((''version 1'' @ [LF]) # ?rows) ! j \<in> set ?rows"
      using nth_mem [of "j - 1" ?rows] by simp
    then show "parse_line (((''version 1'' @ [LF]) # ?rows) ! j) = Skip"
      using skipped by blast
  qed
  then show "parse_waypoint_scenario content = Some (Inr [])"
    unfolding parse_waypoint_scenario_def lines Let_def using header_line(3) by simp
qed

theorem create_segment_scenario_not_parsed_back_witness:
  "create_segment_scenario
     [\<lparr>start = (1, 2), goal = (1, 2), waypoints = [], K = 0, bucket_id = 7\<rparr>] 0 ''m.map'' 8 8
     = Inr (''version 1'' @ [LF] @ ''7'' @ [TAB] @ ''m.map'' @ [TAB] @ ''8'' @ [TAB] @ ''8'' @ [TAB]
            @ ''1'' @ [TAB] @ ''2'' @ [TAB] @ ''1'' @ [TAB] @ ''2'' @ [TAB] @ ''0'' @ [LF])
   \<and> parse_waypoint_scenario
        (''version 1'' @ [LF] @ ''7'' @ [TAB] @ ''m.map'' @ [TAB] @ ''8'' @ [TAB] @ ''8'' @ [TAB]
            @ ''1'' @ [TAB] @ ''2'' @ [TAB] @ ''1'' @ [TAB] @ ''2'' @ [TAB] @ ''0'' @ [LF])
     = Some (Inr [])"
proof -
  have made: "create_segment_scenario
     [\<lparr>start = (1, 2), goal = (1, 2), waypoints = [], K = 0, bucket_id = 7\<rparr>] 0 ''m.map'' 8 8
     = Inr (''version 1'' @ [LF] @ ''7'' @ [TAB] @ ''m.map'' @ [TAB] @ ''8'' @ [TAB] @ ''8'' @ [TAB]
            @ ''1'' @ [TAB] @ ''2'' @ [TAB] @ ''1'' @ [TAB] @ ''2'' @ [TAB] @ ''0'' @ [LF])"
    by (simp add: create_segment_scenario_def segment_start_goal_def scenario_line_def str_int_def
        digits_of.simps digit_char_def)
  have name: "TAB \<notin> set ''m.map''" "LF \<notin> set ''m.map''" "CR \<notin> set ''m.map''"
    by (simp_all add: TAB_def LF_def CR_def)
  show ?thesis
    using create_segment_scenario_not_parsed_back [OF name, of 0
        "[\<lparr>start = (1, 2), goal = (1, 2), waypoints = [], K = 0, bucket_id = 7\<rparr>]" 8 8] made
    by simp
qed

subsection \<open>Solver invocation\<close>

lemma soc_cost_zero:
  assumes "\<And>content. art = Some content \<Longrightarrow> \<forall>line \<in> set (readlines content). \<not> is_soc_line line"
  shows "soc_cost art = 0"
proof (cases art)
  case None
  then show ?thesis by (simp add: soc_cost_def)
next
  case (Some content)
  show ?thesis
  proof (cases "find (\<lambda>line. startswith line ''soc='') (readlines content)")
    case None
    then show ?thesis by (simp add: soc_cost_def Some)
  next
    case (Some line)
    then have "line \<in> set (readlines content)" and st: "startswith line ''soc=''"
      by (auto simp: find_Some_iff)
    then have "\<not> is_soc_line line" using assms [OF \<open>art = Some content\<close>] by blast
    with st have "soc_cost (Some content) = 0"
      using Some by (auto simp: soc_cost_def is_soc_line_def split: sum.splits)
    then show ?thesis by (simp add: \<open>art = Some content\<close>)
  qed
qed

text \<open>
  C7: the return contract of \<open>run_lacam_segment\<close>. If the child exits non-zero the
  result is \<open>(None, runtime, None)\<close>; if the child exceeds the timeout (so that
  \<open>subprocess.run\<close> has stopped it and raised \<open>TimeoutExpired\<close>) the result is
  \<open>(None, timeout_s, None)\<close>; if the child exits zero and the output file has no line
  of the form \<open>soc=<int>\<close>, or cannot be read, the cost is 0 and not an error.
\<close>

theorem run_lacam_segment_contract:
  fixes solve :: "solver_request \<Rightarrow> 'f solver_run"
  shows "(child (solve \<lparr>req_scenario = scen_text, req_num = n, req_seed = sd, req_time_limit = t\<rparr>)
        = Exited rc sout serr rt \<and> rc \<noteq> 0 \<longrightarrow>
      run_lacam_segment solve scen_text n sd t = Inr (None, Measured rt, None))
   \<and> (child (solve \<lparr>req_scenario = scen_text, req_num = n, req_seed = sd, req_time_limit = t\<rparr>)
        = TimeoutExpired \<longrightarrow>
      run_lacam_segment solve scen_text n sd t = Inr (None, Whole t, None))
   \<and> (child (solve \<lparr>req_scenario = scen_text, req_num = n, req_seed = sd, req_time_limit = t\<rparr>)
        = Exited 0 sout serr rt
      \<and> (\<forall>content. artifact (solve \<lparr>req_scenario = scen_text, req_num = n, req_seed = sd,
                                       req_time_limit = t\<rparr>) = Some content
            \<longrightarrow> (\<forall>line \<in> set (readlines content). \<not> is_soc_line line)) \<longrightarrow>
      run_lacam_segment solve scen_text n sd t
        = Inr (Some 0, Measured rt,
               Some (temp_out (solve \<lparr>req_scenario = scen_text, req_num = n, req_seed = sd,
                                       req_time_limit = t\<rparr>))))"
proof (intro conjI impI)
  assume "child (solve \<lparr>req_scenario = scen_text, req_num = n, req_seed = sd, req_time_limit = t\<rparr>)
        = Exited rc sout serr rt \<and> rc \<noteq> 0"
  then show "run_lacam_segment solve scen_text n sd t = Inr (None, Measured rt, None)"
    by (simp add: run_lacam_segment_def)
next
  assume "child (solve \<lparr>req_scenario = scen_text, req_num = n, req_seed = sd, req_time_limit = t\<rparr>)
        = TimeoutExpired"
  then show "run_lacam_segment solve scen_text n sd t = Inr (None, Whole t, None)"
    by (simp add: run_lacam_segment_def)
next
  let ?r = "solve \<lparr>req_scenario = scen_text, req_num = n, req_seed = sd, req_time_limit = t\<rparr>"
  assume a: "child ?r = Exited 0 sout serr rt
      \<and> (\<forall>content. artifact ?r = Some content
            \<longrightarrow> (\<forall>line \<in> set (readlines content). \<not> is_soc_line line))"
  then have "soc_cost (artifact ?r) = 0" by (intro soc_cost_zero) blast
  with a show "run_lacam_segment solve scen_text n sd t = Inr (Some 0, Measured rt, Some (temp_out ?r))"
    by (simp add: run_lacam_segment_def)
qed

theorem run_lacam_segment_contract_witness:
  "run_lacam_segment
      (\<lambda>rq. \<lparr>child = Exited 1 ''out'' ''err'' (7::nat), artifact = Some [], temp_out = ''t.yaml''\<rparr>)
      ''version 1'' 1 42 33 = Inr (None, Measured 7, None)
   \<and> run_lacam_segment
      (\<lambda>rq. \<lparr>child = (TimeoutExpired :: nat child), artifact = Some [], temp_out = ''t.yaml''\<rparr>)
      ''version 1'' 1 42 33 = Inr (None, Whole 33, None)
   \<and> run_lacam_segment
      (\<lambda>rq. \<lparr>child = Exited 0 ''out'' ''err'' (7::nat),
               artifact = Some (''solved=1'' @ [LF] @ ''soc=abc'' @ [LF]), temp_out = ''t.yaml''\<rparr>)
      ''version 1'' 1 42 33 = Inr (Some 0, Measured 7, Some ''t.yaml'')"
proof -
  have lines: "readlines (''solved=1'' @ [LF] @ ''soc=abc'' @ [LF])
      = [''solved=1'' @ [LF], ''soc=abc'' @ [LF]]"
    by (simp add: readlines_def LF_def CR_def)
  have none: "\<forall>line \<in> set [''solved=1'' @ [LF], ''soc=abc'' @ [LF]]. \<not> is_soc_line line"
    by (simp add: is_soc_line_def startswith_def getitem_def py_int_def is_int_space_def strip_def is_space_def
        is_digit_def LF_def)
  show ?thesis
    using
      run_lacam_segment_contract [where
        solve = "\<lambda>rq. \<lparr>child = Exited 1 ''out'' ''err'' (7::nat), artifact = Some [],
                        temp_out = ''t.yaml''\<rparr>"
        and scen_text = "''version 1''" and n = 1 and sd = 42 and t = 33
        and rc = 1 and sout = "''out''" and serr = "''err''" and rt = 7]
      run_lacam_segment_contract [where
        solve = "\<lambda>rq. \<lparr>child = (TimeoutExpired :: nat child), artifact = Some [],
                        temp_out = ''t.yaml''\<rparr>"
        and scen_text = "''version 1''" and n = 1 and sd = 42 and t = 33]
      run_lacam_segment_contract [where
        solve = "\<lambda>rq. \<lparr>child = Exited 0 ''out'' ''err'' (7::nat),
               artifact = Some (''solved=1'' @ [LF] @ ''soc=abc'' @ [LF]), temp_out = ''t.yaml''\<rparr>"
        and scen_text = "''version 1''" and n = 1 and sd = 42 and t = 33
        and sout = "''out''" and serr = "''err''" and rt = 7]
      lines none
    by simp
qed

subsection \<open>The segment loop\<close>

lemma invocations_append [simp]: "invocations (xs @ ys) = invocations xs @ invocations ys"
  by (induction xs rule: invocations.induct) simp_all

lemma files_written_append [simp]: "files_written (xs @ ys) = files_written xs @ files_written ys"
  by (induction xs rule: files_written.induct) simp_all

lemma experiments_run_append [simp]:
  "experiments_run (xs @ ys) = experiments_run xs @ experiments_run ys"
  by (induction xs rule: experiments_run.induct) simp_all

lemma segment_text_made:
  "create_segment_scenario agents (int i) (map_name env) (fst (map_dims env)) (snd (map_dims env))
     = Inr (segment_text env agents i)"
  by (simp add: segment_text_def create_segment_scenario_nat)

text \<open>
  A segment has no cost exactly when its child timed out or exited non-zero, or
  \<open>subprocess.run\<close> raised another exception.
\<close>

lemma segment_cost_None_iff:
  "segment_cost env agents args per c i = None \<longleftrightarrow>
     (case child (solver env c (segment_request env agents args per i)) of
        TimeoutExpired \<Rightarrow> True
      | Raised e \<Rightarrow> True
      | Exited returncode sout serr elapsed \<Rightarrow> returncode \<noteq> 0)"
  by (simp add: segment_cost_def segment_request_def run_lacam_segment_def Let_def
      split: child.splits)

text \<open>An exception of \<open>subprocess.run\<close> other than the timeout leaves the function.\<close>

lemma run_lacam_segment_raises:
  "child (solve \<lparr>req_scenario = scen_text, req_num = n, req_seed = sd, req_time_limit = t\<rparr>)
     = Raised e \<Longrightarrow> run_lacam_segment solve scen_text n sd t = Inl e"
  by (simp add: run_lacam_segment_def)

lemma run_segment_failed:
  assumes "segment_cost env agents args per (calls w) i = None"
  shows "run_segment env agents args per od i w =
    (Inl (SystemExit 1),
     w\<lparr>calls := calls w + 1, trace := trace w @ [Invoked (segment_request env agents args per i)]\<rparr>)"
proof (cases "run_lacam_segment (solver env (calls w)) (segment_text env agents i)
      (length agents) (seed args) per")
  case (Inl e)
  then show ?thesis
    by (simp add: run_segment_def segment_text_made segment_request_def Let_def)
next
  case (Inr triple)
  obtain c rt pf where triple: "triple = (c, rt, pf)" by (cases triple)
  with assms Inr have "c = None" by (simp add: segment_cost_def)
  with Inr triple show ?thesis
    by (simp add: run_segment_def segment_text_made segment_request_def Let_def)
qed

lemma run_segment_passed:
  assumes "segment_cost env agents args per (calls w) i \<noteq> None"
  shows "\<exists>r fs. run_segment env agents args per od i w =
      (Inr r, w\<lparr>calls := calls w + 1,
           trace := trace w @ Invoked (segment_request env agents args per i) # map Wrote fs\<rparr>)
      \<and> set fs \<subseteq> {segment_out od i}"
proof -
  obtain c rt pf where run: "run_lacam_segment (solver env (calls w)) (segment_text env agents i)
      (length agents) (seed args) per = Inr (c, rt, pf)"
    using assms
    by (cases "run_lacam_segment (solver env (calls w)) (segment_text env agents i)
      (length agents) (seed args) per") (auto simp: segment_cost_def)
  with assms obtain cst where c: "c = Some cst" by (auto simp: segment_cost_def)
  let ?rq = "segment_request env agents args per i"
  let ?plan = "if pf \<noteq> None then artifact (solver env (calls w) ?rq) else None"
  obtain mk sv where metrics: "segment_metrics ?plan = (mk, sv)" by (cases "segment_metrics ?plan")
  let ?r = "\<lparr>segment_id = i, cost = cst, makespan = mk, runtime = rt, solved = sv,
      output_file = segment_out od i\<rparr>"
  let ?fs = "if ?plan \<noteq> None then [segment_out od i] else []"
  have "run_segment env agents args per od i w =
      (Inr ?r, w\<lparr>calls := calls w + 1, trace := trace w @ Invoked ?rq # map Wrote ?fs\<rparr>)"
    using run c metrics
    by (cases pf; cases "artifact (solver env (calls w) ?rq)")
       (simp_all add: run_segment_def segment_text_made segment_request_def Let_def)
  moreover have "set ?fs \<subseteq> {segment_out od i}" by auto
  ultimately show ?thesis by blast
qed

lemma run_segments_all_passed:
  "(\<And>p. p < length is \<Longrightarrow> segment_cost env agents args per (calls w + p) (is ! p) \<noteq> None)
   \<Longrightarrow> \<exists>results w' new. run_segments env agents args per od is acc w = (Inr results, w')
        \<and> length results = length acc + length is
        \<and> calls w' = calls w + length is
        \<and> trace w' = trace w @ new
        \<and> invocations new = map (segment_request env agents args per) is
        \<and> set (files_written new) \<subseteq> segment_out od ` set is
        \<and> experiments_run new = []"
proof (induction "is" arbitrary: acc w)
  case Nil
  then show ?case by simp
next
  case (Cons i rest)
  have "segment_cost env agents args per (calls w) i \<noteq> None"
    using Cons.prems [of 0] by simp
  from run_segment_passed [OF this, of od] obtain r fs where
    step: "run_segment env agents args per od i w =
      (Inr r, w\<lparr>calls := calls w + 1,
           trace := trace w @ Invoked (segment_request env agents args per i) # map Wrote fs\<rparr>)"
    and fs: "set fs \<subseteq> {segment_out od i}" by blast
  let ?w1 = "w\<lparr>calls := calls w + 1,
           trace := trace w @ Invoked (segment_request env agents args per i) # map Wrote fs\<rparr>"
  have "segment_cost env agents args per (calls ?w1 + p) (rest ! p) \<noteq> None" if "p < length rest" for p
    using Cons.prems [of "Suc p"] that by simp
  from Cons.IH [OF this, of "acc @ [r]"] obtain results w' new where
    ih: "run_segments env agents args per od rest (acc @ [r]) ?w1 = (Inr results, w')"
      "length results = length (acc @ [r]) + length rest"
      "calls w' = calls ?w1 + length rest"
      "trace w' = trace ?w1 @ new"
      "invocations new = map (segment_request env agents args per) rest"
      "set (files_written new) \<subseteq> segment_out od ` set rest"
      "experiments_run new = []"
    by blast
  have fw: "files_written (map Wrote fs) = fs" by (induction fs) simp_all
  have iv: "invocations (map Wrote fs) = []" by (induction fs) simp_all
  have ex: "experiments_run (map Wrote fs) = []" by (induction fs) simp_all
  let ?new = "Invoked (segment_request env agents args per i) # map Wrote fs @ new"
  have "run_segments env agents args per od (i # rest) acc w = (Inr results, w')"
    using step ih(1) by simp
  moreover have "length results = length acc + length (i # rest)" using ih(2) by simp
  moreover have "calls w' = calls w + length (i # rest)" using ih(3) by simp
  moreover have "trace w' = trace w @ ?new" using ih(4) by simp
  moreover have "invocations ?new = map (segment_request env agents args per) (i # rest)"
    using ih(5) iv by simp
  moreover have "set (files_written ?new) \<subseteq> segment_out od ` set (i # rest)"
    using ih(6) fs fw by auto
  moreover have "experiments_run ?new = []" using ih(7) ex by simp
  ultimately show ?case by blast
qed


lemma run_segments_first_failure:
  "p < length is
   \<Longrightarrow> (\<And>q. q < p \<Longrightarrow> segment_cost env agents args per (calls w + q) (is ! q) \<noteq> None)
   \<Longrightarrow> segment_cost env agents args per (calls w + p) (is ! p) = None
   \<Longrightarrow> \<exists>w' new. run_segments env agents args per od is acc w = (Inl (SystemExit 1), w')
        \<and> calls w' = calls w + Suc p
        \<and> trace w' = trace w @ new
        \<and> invocations new = map (segment_request env agents args per) (take (Suc p) is)
        \<and> set (files_written new) \<subseteq> segment_out od ` set (take p is)
        \<and> experiments_run new = []"
proof (induction "is" arbitrary: acc w p)
  case Nil
  then show ?case by simp
next
  case (Cons i rest)
  show ?case
  proof (cases p)
    case 0
    then have "segment_cost env agents args per (calls w) i = None" using Cons.prems(3) by simp
    from run_segment_failed [OF this, of od] show ?thesis
      using 0
      by (intro exI [of _ "w\<lparr>calls := calls w + 1,
            trace := trace w @ [Invoked (segment_request env agents args per i)]\<rparr>"]
          exI [of _ "[Invoked (segment_request env agents args per i)]"]) simp
  next
    case (Suc p')
    have "segment_cost env agents args per (calls w) i \<noteq> None"
      using Cons.prems(2) [of 0] Suc by simp
    from run_segment_passed [OF this, of od] obtain r fs where
      step: "run_segment env agents args per od i w =
        (Inr r, w\<lparr>calls := calls w + 1,
             trace := trace w @ Invoked (segment_request env agents args per i) # map Wrote fs\<rparr>)"
      and fs: "set fs \<subseteq> {segment_out od i}" by blast
    let ?w1 = "w\<lparr>calls := calls w + 1,
             trace := trace w @ Invoked (segment_request env agents args per i) # map Wrote fs\<rparr>"
    have len: "p' < length rest" using Cons.prems(1) Suc by simp
    have before: "segment_cost env agents args per (calls ?w1 + q) (rest ! q) \<noteq> None" if "q < p'" for q
      using Cons.prems(2) [of "Suc q"] that Suc by simp
    have at: "segment_cost env agents args per (calls ?w1 + p') (rest ! p') = None"
      using Cons.prems(3) Suc by simp
    from Cons.IH [OF len before at, of "acc @ [r]"] obtain w' new where
      ih: "run_segments env agents args per od rest (acc @ [r]) ?w1 = (Inl (SystemExit 1), w')"
        "calls w' = calls ?w1 + Suc p'"
        "trace w' = trace ?w1 @ new"
        "invocations new = map (segment_request env agents args per) (take (Suc p') rest)"
        "set (files_written new) \<subseteq> segment_out od ` set (take p' rest)"
        "experiments_run new = []"
      by blast
    have fw: "files_written (map Wrote fs) = fs" by (induction fs) simp_all
    have iv: "invocations (map Wrote fs) = []" by (induction fs) simp_all
    have ex: "experiments_run (map Wrote fs) = []" by (induction fs) simp_all
    let ?new = "Invoked (segment_request env agents args per i) # map Wrote fs @ new"
    have "run_segments env agents args per od (i # rest) acc w = (Inl (SystemExit 1), w')"
      using step ih(1) by simp
    moreover have "calls w' = calls w + Suc p" using ih(2) Suc by simp
    moreover have "trace w' = trace w @ ?new" using ih(3) by simp
    moreover have "invocations ?new = map (segment_request env agents args per) (take (Suc p) (i # rest))"
      using ih(4) iv Suc by simp
    moreover have "set (files_written ?new) \<subseteq> segment_out od ` set (take p (i # rest))"
      using ih(5) fs fw Suc by auto
    moreover have "experiments_run ?new = []" using ih(6) ex by simp
    ultimately show ?thesis by blast
  qed
qed

lemma py_max_Max: "xs \<noteq> [] \<Longrightarrow> py_max xs = Inr (Max (set xs))"
  by (cases xs) (simp_all add: Max.set_eq_fold [symmetric])

lemma segment_out_not_summary:
  "segment_out od i \<noteq> summary_file od" "segment_out od i \<noteq> readable_summary od"
  by (simp_all add: segment_out_def summary_file_def readable_summary_def)

subsection \<open>Experiments\<close>

lemma run_segments_completed:
  assumes "run_segments env agents args per od is acc w = (Inr results, w')"
  shows "\<forall>p < length is. segment_cost env agents args per (calls w + p) (is ! p) \<noteq> None"
proof (rule ccontr)
  define bad where
    "bad p \<longleftrightarrow> p < length is \<and> segment_cost env agents args per (calls w + p) (is ! p) = None"
    for p
  assume "\<not> ?thesis"
  then have "\<exists>p. bad p" by (auto simp: bad_def)
  then have "\<exists>p. bad p \<and> (\<forall>q < p. \<not> bad q)"
    by (rule iffD1 [OF exists_least_iff [of bad]])
  then obtain p where p: "bad p" and least: "\<And>q. q < p \<Longrightarrow> \<not> bad q" by auto
  have len: "p < length is"
    and at: "segment_cost env agents args per (calls w + p) (is ! p) = None"
    using p by (simp_all add: bad_def)
  have before: "segment_cost env agents args per (calls w + q) (is ! q) \<noteq> None" if "q < p" for q
    using least [OF that] that len by (simp add: bad_def)
  from run_segments_first_failure [OF len before at, of od acc]
  obtain w2 where "run_segments env agents args per od is acc w = (Inl (SystemExit 1), w2)"
    by auto
  then show False using assms by simp
qed




text \<open>Unfolding these evaluates a run on the example inputs.\<close>

lemmas evaluation =
  run_experiment_def max_waypoints_of_def per_segment_timeout_def run_segment_def
  create_segment_scenario_def segment_start_goal_def getitem_def scenario_line_def str_int_def
  digits_of.simps digit_char_def run_lacam_segment_def soc_cost_def readlines_def startswith_def
  py_int_def is_int_space_def strip_def is_space_def is_digit_def digit_val_def segment_metrics_def
  segment_out_def summary_file_def readable_summary_def Let_def LF_def CR_def TAB_def
  example_agent_def example_args_def solved_run_def steady_env_def failing_env_def
  start_world_def segment_cost_def segment_text_def



lemma run_segments_returned:
  assumes "run_segments env agents args per od is acc w = (Inr results, w')"
  shows "length results = length acc + length is \<and> calls w' = calls w + length is"
proof -
  have "segment_cost env agents args per (calls w + p) (is ! p) \<noteq> None" if "p < length is" for p
    using run_segments_completed [OF assms] that by simp
  from run_segments_all_passed [OF this, of od acc] show ?thesis using assms by auto
qed

text \<open>
  C5: for every non-empty agent list the experiment has as many segments as the largest
  number of waypoints of a participating agent, plus one: this is the value of
  \<open>max_waypoints + 1\<close>, and a completed experiment reports it as \<open>total_segments\<close>, has
  one segment result and one solver invocation per segment. If no agent has a waypoint,
  that is exactly one segment.
\<close>

theorem num_segments_max_plus_one:
  assumes "agents \<noteq> []"
  shows "max_waypoints_of agents = Inr (Max ((\<lambda>a. length (waypoints a)) ` set agents))
    \<and> (\<forall>smry w'. run_experiment env agents args od w = (Inr smry, w') \<longrightarrow>
          total_segments smry = Max ((\<lambda>a. length (waypoints a)) ` set agents) + 1
          \<and> num_segments smry = Max ((\<lambda>a. length (waypoints a)) ` set agents) + 1
          \<and> length (segment_results smry) = Max ((\<lambda>a. length (waypoints a)) ` set agents) + 1
          \<and> calls w' = calls w + (Max ((\<lambda>a. length (waypoints a)) ` set agents) + 1))
    \<and> ((\<forall>a \<in> set agents. waypoints a = []) \<longrightarrow>
          Max ((\<lambda>a. length (waypoints a)) ` set agents) + 1 = 1)"
proof (intro conjI allI impI)
  let ?mw = "Max ((\<lambda>a. length (waypoints a)) ` set agents)"
  show mw: "max_waypoints_of agents = Inr ?mw"
    using assms py_max_Max [of "map (\<lambda>a. length (waypoints a)) agents"]
    by (simp add: max_waypoints_of_def)
  {
    fix smry :: "'a summary" and w'
    assume run: "run_experiment env agents args od w = (Inr smry, w')"
    let ?per = "per_segment_timeout (timeout args) (int (?mw + 1))"
    obtain r w1 where rw: "run_segments env agents args ?per od [0..<?mw + 1] [] w = (r, w1)"
      by (cases "run_segments env agents args ?per od [0..<?mw + 1] [] w")
    obtain results where r: "r = Inr results"
      using run mw rw by (cases r) (simp_all add: run_experiment_def Let_def del: upt_Suc)
    have loop: "run_segments env agents args ?per od [0..<?mw + 1] [] w = (Inr results, w1)"
      using rw r by simp
    have smry: "total_segments smry = ?mw + 1" "num_segments smry = length results"
        "segment_results smry = results" and w': "calls w' = calls w1"
      using run mw loop by (auto simp: run_experiment_def Let_def simp del: upt_Suc)
    from run_segments_returned [OF loop]
    have "length results = ?mw + 1" "calls w1 = calls w + (?mw + 1)" by simp_all
    with smry w' show "total_segments smry = ?mw + 1" "num_segments smry = ?mw + 1"
      "length (segment_results smry) = ?mw + 1" "calls w' = calls w + (?mw + 1)"
      by simp_all
  }
  assume none: "\<forall>a \<in> set agents. waypoints a = []"
  have "(\<lambda>a. length (waypoints a)) ` set agents = {0}"
    using assms none by (cases agents) auto
  then show "?mw + 1 = 1" by simp
qed

theorem num_segments_max_plus_one_witness:
  "max_waypoints_of [example_agent, example_agent\<lparr>waypoints := []\<rparr>] = Inr 2
   \<and> num_segments (projr (fst (run_experiment steady_env
         [example_agent, example_agent\<lparr>waypoints := []\<rparr>] example_args ''out'' start_world))) = 3
   \<and> max_waypoints_of [example_agent\<lparr>waypoints := []\<rparr>] = Inr 0
   \<and> num_segments (projr (fst (run_experiment steady_env
         [example_agent\<lparr>waypoints := []\<rparr>] example_args ''out'' start_world))) = 1"
proof -
  have two: "[example_agent, example_agent\<lparr>waypoints := []\<rparr>] \<noteq> []"
    and one: "[example_agent\<lparr>waypoints := []\<rparr>] \<noteq> []"
    by simp_all
  have a: "max_waypoints_of [example_agent, example_agent\<lparr>waypoints := []\<rparr>] = Inr 2"
    using num_segments_max_plus_one [OF two, THEN conjunct1]
    by (simp add: example_agent_def)
  have b: "max_waypoints_of [example_agent\<lparr>waypoints := []\<rparr>] = Inr 0"
    using num_segments_max_plus_one [OF one, THEN conjunct1]
    by (simp add: example_agent_def)
  have c: "num_segments (projr (fst (run_experiment steady_env
         [example_agent, example_agent\<lparr>waypoints := []\<rparr>] example_args ''out'' start_world))) = 3"
    by (simp add: evaluation)
  have d: "num_segments (projr (fst (run_experiment steady_env
         [example_agent\<lparr>waypoints := []\<rparr>] example_args ''out'' start_world))) = 1"
    by (simp add: evaluation)
  show ?thesis using a c b d by (intro conjI)
qed

subsection \<open>Sweeps over agent counts\<close>

lemma run_segments_trace:
  "\<exists>res w' new. run_segments env agents args per od is acc w = (res, w')
     \<and> trace w' = trace w @ new \<and> experiments_run new = []"
proof (cases "\<forall>p < length is. segment_cost env agents args per (calls w + p) (is ! p) \<noteq> None")
  case True
  then have "segment_cost env agents args per (calls w + p) (is ! p) \<noteq> None" if "p < length is" for p
    using that by simp
  from run_segments_all_passed [OF this, of od acc] show ?thesis by auto
next
  case False
  define bad where
    "bad p \<longleftrightarrow> p < length is \<and> segment_cost env agents args per (calls w + p) (is ! p) = None"
    for p
  from False have "\<exists>p. bad p" by (auto simp: bad_def)
  then have "\<exists>p. bad p \<and> (\<forall>q < p. \<not> bad q)"
    by (rule iffD1 [OF exists_least_iff [of bad]])
  then obtain p where p: "bad p" and least: "\<And>q. q < p \<Longrightarrow> \<not> bad q" by auto
  have len: "p < length is"
    and at: "segment_cost env agents args per (calls w + p) (is ! p) = None"
    using p by (simp_all add: bad_def)
  have before: "segment_cost env agents args per (calls w + q) (is ! q) \<noteq> None" if "q < p" for q
    using least [OF that] that len by (simp add: bad_def)
  from run_segments_first_failure [OF len before at, of od acc] show ?thesis by auto
qed

lemma run_experiment_trace:
  "\<exists>res w' new. run_experiment env agents args od w = (res, w')
     \<and> trace w' = trace w @ new \<and> experiments_run new = []"
proof (cases "max_waypoints_of agents")
  case (Inl e)
  then show ?thesis by (simp add: run_experiment_def)
next
  case (Inr mw)
  let ?per = "per_segment_timeout (timeout args) (int (mw + 1))"
  obtain r w1 new where loop: "run_segments env agents args ?per od [0..<mw + 1] [] w = (r, w1)"
      "trace w1 = trace w @ new" "experiments_run new = []"
    using run_segments_trace [of env agents args ?per od "[0..<mw + 1]" "[]" w] by auto
  show ?thesis
  proof (cases r)
    case (Inl e)
    then show ?thesis using loop Inr by (simp add: run_experiment_def Let_def del: upt_Suc)
  next
    case (Inr results)
    have "experiments_run (new @ [Wrote (summary_file od), Wrote (readable_summary od)]) = []"
      using loop(3) by simp
    then show ?thesis using loop Inr \<open>max_waypoints_of agents = Inr mw\<close>
      by (simp add: run_experiment_def Let_def del: upt_Suc)
  qed
qed

lemma run_counts_trace:
  "run_counts env agents args counts acc w = (res, w')
   \<Longrightarrow> \<exists>new k. trace w' = trace w @ new \<and> k \<le> length counts
        \<and> experiments_run new = map (\<lambda>n. (n, slice_to agents n)) (take k counts)
        \<and> (\<forall>all_results. res = Inr all_results \<longrightarrow>
              k = length counts \<and> map fst all_results = map fst acc @ counts)
        \<and> (\<forall>e. res = Inl e \<longrightarrow> 0 < k)"
proof (induction counts arbitrary: acc w)
  case Nil
  then show ?case by auto
next
  case (Cons n rest)
  let ?w0 = "w\<lparr>trace := trace w @ [Experiment n (slice_to agents n)]\<rparr>"
  obtain r w1 new1 where ex: "run_experiment env (slice_to agents n) args (current_out_dir args n) ?w0
      = (r, w1)" "trace w1 = trace ?w0 @ new1" "experiments_run new1 = []"
    using run_experiment_trace [of env "slice_to agents n" args "current_out_dir args n" ?w0] by auto
  show ?case
  proof (cases r)
    case (Inl e)
    then have "res = Inl e" "w' = w1" using Cons.prems ex(1) by (simp_all add: Let_def)
    then show ?thesis
      using ex(2) ex(3)
      by (intro exI [of _ "Experiment n (slice_to agents n) # new1"] exI [of _ 1]) simp
  next
    case (Inr result)
    then have "run_counts env agents args rest (acc @ [(n, result)]) w1 = (res, w')"
      using Cons.prems ex(1) by (simp add: Let_def)
    from Cons.IH [OF this] obtain new k where ih: "trace w' = trace w1 @ new" "k \<le> length rest"
      "experiments_run new = map (\<lambda>n. (n, slice_to agents n)) (take k rest)"
      "\<forall>all_results. res = Inr all_results \<longrightarrow>
              k = length rest \<and> map fst all_results = map fst (acc @ [(n, result)]) @ rest"
      by auto
    show ?thesis
      using ih ex(2) ex(3)
      by (intro exI [of _ "Experiment n (slice_to agents n) # new1 @ new"] exI [of _ "Suc k"]) simp
  qed
qed

lemma run_counts_append:
  "run_counts env agents args pre acc w = (Inr acc1, w1)
   \<Longrightarrow> run_counts env agents args (pre @ rest) acc w = run_counts env agents args rest acc1 w1"
proof (induction pre arbitrary: acc w)
  case Nil
  then show ?case by simp
next
  case (Cons n pre)
  obtain r w0 where ex: "run_experiment env (slice_to agents n) args (current_out_dir args n)
      (w\<lparr>trace := trace w @ [Experiment n (slice_to agents n)]\<rparr>) = (r, w0)"
    by (cases "run_experiment env (slice_to agents n) args (current_out_dir args n)
      (w\<lparr>trace := trace w @ [Experiment n (slice_to agents n)]\<rparr>)")
  show ?case
  proof (cases r)
    case (Inl e)
    then show ?thesis using Cons.prems ex by (simp add: Let_def)
  next
    case (Inr result)
    then have "run_counts env agents args pre (acc @ [(n, result)]) w0 = (Inr acc1, w1)"
      using Cons.prems ex by (simp add: Let_def)
    from Cons.IH [OF this] show ?thesis using ex Inr by (simp add: Let_def)
  qed
qed


lemma example_scenario_parsed:
  "parse_waypoint_scenario example_scenario = Some (Inr [parked_agent])"
proof -
  have lines: "readlines example_scenario = [example_scenario]"
    by (simp add: readlines_def example_scenario_def TAB_def LF_def CR_def)
  have header: "\<not> startswith (strip example_scenario) ''version''"
    by (simp add: startswith_def example_scenario_def strip_def is_space_def TAB_def LF_def)
  have line: "parse_line example_scenario = Parsed parked_agent"
    by (simp add: example_scenario_def parse_line_def strip_def is_space_def TAB_def LF_def
        py_int_def is_int_space_def is_digit_def digit_val_def Let_def parked_agent_def)
  have "parse_loop [example_scenario] 0 [] = Some (Inr [parked_agent])"
    by (subst parse_loop.simps, simp add: line, subst parse_loop.simps, simp)
  then show ?thesis
    unfolding parse_waypoint_scenario_def lines Let_def using header by simp
qed

text \<open>
  C3 as stated says that in a multi-scale sweep a failure of the experiment for one agent
  count leaves the later agent counts to be run. \<open>main\<close> runs the experiments in one
  process, and a failed experiment leaves through \<open>sys.exit(1)\<close>: with one agent in the
  scenario file and a solver that times out, the sweep over 100, 200, 300, 400, 500 ends
  inside the experiment for 100, after one solver invocation.
\<close>

theorem sweep_aborts_counterexample:
  "agent_counts (example_args\<lparr>multi_scale := True\<rparr>) [parked_agent] = [100, 200, 300, 400, 500]
   \<and> main timeout_env (example_args\<lparr>multi_scale := True\<rparr>) example_scenario
     = Some (Inl (SystemExit 1),
             \<lparr>calls = 1,
              trace = [Experiment 100 [parked_agent],
                       Invoked (segment_request timeout_env [parked_agent]
                                  (example_args\<lparr>multi_scale := True\<rparr>) 100 0)]\<rparr>)"
  by (simp add: main_def example_scenario_parsed agent_counts_def slice_to_def current_out_dir_def
      segment_request_def evaluation parked_agent_def timeout_env_def)


text \<open>
  C3, amended: in a sweep the experiments run in the order of the agent counts; when the
  experiments for the agent counts \<open>pre\<close> have completed and the one for the next agent
  count \<open>n\<close> fails, the sweep ends with that failure: the result and the world are those
  of the failed experiment, the experiments run are those for \<open>pre\<close> and \<open>n\<close> and none for
  a later agent count, and \<open>main\<close> returns this failure without writing a multi-scale
  summary.
\<close>

theorem sweep_stops_at_first_failure:
  assumes "run_counts env agents args pre [] w = (Inr finished, w1)"
    and "run_experiment env (slice_to agents n) args (current_out_dir args n)
           (w1\<lparr>trace := trace w1 @ [Experiment n (slice_to agents n)]\<rparr>) = (Inl e, w2)"
  shows "run_counts env agents args (pre @ n # post) [] w = (Inl e, w2)
    \<and> map fst (experiments_run (trace w2)) = map fst (experiments_run (trace w)) @ pre @ [n]
    \<and> (parse_waypoint_scenario content = Some (Inr agents) \<and> agents \<noteq> []
         \<and> agent_counts args agents = pre @ n # post \<and> w = \<lparr>calls = 0, trace = []\<rparr>
        \<longrightarrow> main env args content = Some (Inl e, w2))"
proof -
  let ?w0 = "w1\<lparr>trace := trace w1 @ [Experiment n (slice_to agents n)]\<rparr>"
  have stop: "run_counts env agents args (n # post) finished w1 = (Inl e, w2)"
    using assms(2) by (simp add: Let_def)
  have whole: "run_counts env agents args (pre @ n # post) [] w = (Inl e, w2)"
    using run_counts_append [OF assms(1), of "n # post"] stop by simp
  from run_counts_trace [OF assms(1)] obtain new k where pre:
    "trace w1 = trace w @ new" "k = length pre"
    "experiments_run new = map (\<lambda>n. (n, slice_to agents n)) (take k pre)"
    by auto
  from run_experiment_trace [of env "slice_to agents n" args "current_out_dir args n" ?w0]
  obtain new2 where last: "trace w2 = trace ?w0 @ new2" "experiments_run new2 = []"
    using assms(2) by auto
  have ran: "map fst (experiments_run (trace w2)) = map fst (experiments_run (trace w)) @ pre @ [n]"
    using pre last by (simp add: comp_def)
  have top: "main env args content = Some (Inl e, w2)"
    if "parse_waypoint_scenario content = Some (Inr agents) \<and> agents \<noteq> []
         \<and> agent_counts args agents = pre @ n # post \<and> w = \<lparr>calls = 0, trace = []\<rparr>"
    using that whole by (simp add: main_def)
  show ?thesis using whole ran top by simp
qed

theorem sweep_stops_at_first_failure_witness:
  "run_counts timeout_env [parked_agent] (example_args\<lparr>multi_scale := True\<rparr>) [] [] start_world
     = (Inr [], start_world)
   \<and> fst (run_counts timeout_env [parked_agent] (example_args\<lparr>multi_scale := True\<rparr>)
        [100, 200, 300, 400, 500] [] start_world) = Inl (SystemExit 1)
   \<and> map fst (experiments_run (trace (snd
        (run_counts timeout_env [parked_agent] (example_args\<lparr>multi_scale := True\<rparr>)
           [100, 200, 300, 400, 500] [] start_world)))) = [100]"
proof -
  let ?args = "example_args\<lparr>multi_scale := True\<rparr>"
  let ?w2 = "\<lparr>calls = 1,
              trace = [Experiment 100 [parked_agent],
                       Invoked (segment_request timeout_env [parked_agent] ?args 100 0)]\<rparr>"
  have none: "run_counts timeout_env [parked_agent] ?args [] [] start_world = (Inr [], start_world)"
    by simp
  have fails: "run_experiment timeout_env (slice_to [parked_agent] 100) ?args
      (current_out_dir ?args 100)
      (start_world\<lparr>trace := trace start_world @ [Experiment 100 (slice_to [parked_agent] 100)]\<rparr>)
      = (Inl (SystemExit 1), ?w2)"
    by (simp add: slice_to_def current_out_dir_def segment_request_def evaluation parked_agent_def
        timeout_env_def)
  from sweep_stops_at_first_failure [OF none fails, of "[200, 300, 400, 500]"]
  have "run_counts timeout_env [parked_agent] ?args [100, 200, 300, 400, 500] [] start_world
      = (Inl (SystemExit 1), ?w2)"
    by simp
  then show ?thesis using none by simp
qed

text \<open>The solver requests of a segment loop and of an experiment, in order.\<close>

lemma run_segments_invocations:
  "\<exists>res w' new k. run_segments env agents args per od is acc w = (res, w')
     \<and> trace w' = trace w @ new \<and> experiments_run new = [] \<and> k \<le> length is
     \<and> invocations new = map (segment_request env agents args per) (take k is)"
proof (cases "\<forall>p < length is. segment_cost env agents args per (calls w + p) (is ! p) \<noteq> None")
  case True
  then have "segment_cost env agents args per (calls w + p) (is ! p) \<noteq> None" if "p < length is" for p
    using that by simp
  from run_segments_all_passed [OF this, of od acc]
  obtain results w' new where "run_segments env agents args per od is acc w = (Inr results, w')"
    "trace w' = trace w @ new" "invocations new = map (segment_request env agents args per) is"
    "experiments_run new = []"
    by auto
  then show ?thesis
    by (intro exI [of _ "Inr results"] exI [of _ w'] exI [of _ new] exI [of _ "length is"]) simp
next
  case False
  define bad where
    "bad p \<longleftrightarrow> p < length is \<and> segment_cost env agents args per (calls w + p) (is ! p) = None"
    for p
  from False have "\<exists>p. bad p" by (auto simp: bad_def)
  then have "\<exists>p. bad p \<and> (\<forall>q < p. \<not> bad q)"
    by (rule iffD1 [OF exists_least_iff [of bad]])
  then obtain p where p: "bad p" and least: "\<And>q. q < p \<Longrightarrow> \<not> bad q" by auto
  have len: "p < length is"
    and at: "segment_cost env agents args per (calls w + p) (is ! p) = None"
    using p by (simp_all add: bad_def)
  have before: "segment_cost env agents args per (calls w + q) (is ! q) \<noteq> None" if "q < p" for q
    using least [OF that] that len by (simp add: bad_def)
  from run_segments_first_failure [OF len before at, of od acc]
  obtain w' new where "run_segments env agents args per od is acc w = (Inl (SystemExit 1), w')"
    "trace w' = trace w @ new"
    "invocations new = map (segment_request env agents args per) (take (Suc p) is)"
    "experiments_run new = []"
    by auto
  then show ?thesis using len
    by (intro exI [of _ "Inl (SystemExit 1)"] exI [of _ w'] exI [of _ new] exI [of _ "Suc p"]) simp
qed

lemma run_experiment_invocations:
  "\<exists>res w' new per k. run_experiment env agents args od w = (res, w')
     \<and> trace w' = trace w @ new \<and> experiments_run new = []
     \<and> invocations new = map (segment_request env agents args per) [0..<k]
     \<and> (\<forall>smry. res = Inr smry \<longrightarrow> total_agents smry = length agents)"
proof (cases "max_waypoints_of agents")
  case (Inl e)
  then have "run_experiment env agents args od w = (Inl e, w)" by (simp add: run_experiment_def)
  then show ?thesis
    by (intro exI [of _ "Inl e"] exI [of _ w] exI [of _ "[]"] exI [of _ 0]) simp
next
  case (Inr mw)
  let ?per = "per_segment_timeout (timeout args) (int (mw + 1))"
  obtain r w1 new k where loop: "run_segments env agents args ?per od [0..<mw + 1] [] w = (r, w1)"
      "trace w1 = trace w @ new" "experiments_run new = []" "k \<le> length [0..<mw + 1]"
      "invocations new = map (segment_request env agents args ?per) (take k [0..<mw + 1])"
    using run_segments_invocations [of env agents args ?per od "[0..<mw + 1]" "[]" w] by blast
  have upto: "take k [0..<mw + 1] = [0..<k]"
    using loop(4) take_upt [of 0 k "mw + 1"] by simp
  have asked: "invocations new = map (segment_request env agents args ?per) [0..<k]"
    using loop(5) by (simp only: upto)
  show ?thesis
  proof (cases r)
    case (Inl e)
    then have "run_experiment env agents args od w = (Inl e, w1)"
      using loop(1) Inr by (simp add: run_experiment_def Let_def del: upt_Suc)
    then show ?thesis using loop(2,3) asked
      by (intro exI [of _ "Inl e"] exI [of _ w1] exI [of _ new] exI [of _ ?per] exI [of _ k])
         simp
  next
    case (Inr results)
    let ?new = "new @ [Wrote (summary_file od), Wrote (readable_summary od)]"
    obtain smry w2 where run: "run_experiment env agents args od w = (Inr smry, w2)"
        "trace w2 = trace w @ ?new" "total_agents smry = length agents"
      using loop(1,2) Inr \<open>max_waypoints_of agents = Inr mw\<close>
      by (simp add: run_experiment_def Let_def del: upt_Suc)
    have "experiments_run ?new = []"
      "invocations ?new = map (segment_request env agents args ?per) [0..<k]"
      using loop(3) asked by simp_all
    then show ?thesis using run
      by (intro exI [of _ "Inr smry"] exI [of _ w2] exI [of _ ?new] exI [of _ ?per] exI [of _ k])
         simp
  qed
qed

text \<open>
  C9: for an agent count \<open>N\<close> of a sweep with \<open>0 \<le> N \<le> len(agents)\<close>, reached
  after the counts before it have returned, \<open>main\<close> calls \<open>run_experiment\<close> on
  \<open>agents[:N]\<close>, which is exactly the first \<open>N\<close> records of the parsed sequence, in file
  order, and the sweep goes on from what this call returns. Every solver request of this
  experiment is made for \<open>N\<close> agents, on the segment scenario built from these \<open>N\<close>
  records, and a summary that it returns counts \<open>N\<close> agents.
\<close>

theorem sweep_uses_prefix:
  assumes "run_counts env agents args pre acc w = (Inr acc1, w1)"
    and "0 \<le> n" and "n \<le> int (length agents)"
  shows "\<exists>res w2 new per k.
      run_experiment env (take (nat n) agents) args (current_out_dir args n)
        (w1\<lparr>trace := trace w1 @ [Experiment n (take (nat n) agents)]\<rparr>) = (res, w2)
    \<and> run_counts env agents args (pre @ n # post) acc w =
        (case res of
           Inl e \<Rightarrow> (Inl e, w2)
         | Inr result \<Rightarrow> run_counts env agents args post (acc1 @ [(n, result)]) w2)
    \<and> trace w2 = trace w1 @ Experiment n (take (nat n) agents) # new
    \<and> experiments_run new = []
    \<and> invocations new =
        map (\<lambda>i. \<lparr>req_scenario = segment_text env (take (nat n) agents) i, req_num = nat n,
                   req_seed = seed args, req_time_limit = per\<rparr>) [0..<k]
    \<and> (\<forall>smry. res = Inr smry \<longrightarrow> total_agents smry = nat n)
    \<and> length (take (nat n) agents) = nat n
    \<and> (\<forall>i < nat n. take (nat n) agents ! i = agents ! i)"
proof -
  let ?used = "take (nat n) agents"
  let ?w0 = "w1\<lparr>trace := trace w1 @ [Experiment n ?used]\<rparr>"
  have slice: "slice_to agents n = ?used"
    using assms(2) by (simp add: slice_to_def)
  have len: "length ?used = nat n"
    using assms(2,3) by simp
  obtain res w2 new per k where run:
      "run_experiment env ?used args (current_out_dir args n) ?w0 = (res, w2)"
      "trace w2 = trace ?w0 @ new" "experiments_run new = []"
      "invocations new = map (segment_request env ?used args per) [0..<k]"
      "\<forall>smry. res = Inr smry \<longrightarrow> total_agents smry = length ?used"
    using run_experiment_invocations [of env ?used args "current_out_dir args n" ?w0] by blast
  have sweep: "run_counts env agents args (pre @ n # post) acc w =
        (case res of
           Inl e \<Rightarrow> (Inl e, w2)
         | Inr result \<Rightarrow> run_counts env agents args post (acc1 @ [(n, result)]) w2)"
    using run_counts_append [OF assms(1), of "n # post"] run(1) slice
    by (cases res) (simp_all add: Let_def)
  have shown: "trace w2 = trace w1 @ Experiment n ?used # new"
    using run(2) by simp
  have requests: "invocations new =
        map (\<lambda>i. \<lparr>req_scenario = segment_text env ?used i, req_num = nat n,
                   req_seed = seed args, req_time_limit = per\<rparr>) [0..<k]"
    using run(4) len by (simp add: segment_request_def)
  have counted: "\<forall>smry. res = Inr smry \<longrightarrow> total_agents smry = nat n"
    using run(5) len by simp
  have same: "\<forall>i < nat n. ?used ! i = agents ! i"
    by simp
  show ?thesis
    using run(1) sweep shown run(3) requests counted len same
    by (intro exI [of _ res] exI [of _ w2] exI [of _ new] exI [of _ per] exI [of _ k] conjI)
qed

theorem sweep_uses_prefix_witness:
  "map req_num (invocations (trace (snd
     (run_counts steady_env [parked_agent, example_agent] (example_args\<lparr>num := Some 1\<rparr>)
        (agent_counts (example_args\<lparr>num := Some 1\<rparr>) [parked_agent, example_agent]) []
        start_world)))) = [1]
   \<and> map req_scenario (invocations (trace (snd
     (run_counts steady_env [parked_agent, example_agent] (example_args\<lparr>num := Some 1\<rparr>)
        (agent_counts (example_args\<lparr>num := Some 1\<rparr>) [parked_agent, example_agent]) []
        start_world)))) =
       [''version 1'' @ [LF] @ ''0'' @ [TAB] @ ''m.map'' @ [TAB] @ ''8'' @ [TAB] @ ''8'' @ [TAB]
        @ ''1'' @ [TAB] @ ''2'' @ [TAB] @ ''9'' @ [TAB] @ ''9'' @ [TAB] @ ''15'' @ [LF]]
   \<and> experiments_run (trace (snd
     (run_counts steady_env [parked_agent, example_agent] (example_args\<lparr>num := Some 1\<rparr>)
        (agent_counts (example_args\<lparr>num := Some 1\<rparr>) [parked_agent, example_agent]) []
        start_world)))
      = [(1, [parked_agent])]"
proof -
  let ?args = "example_args\<lparr>num := Some 1\<rparr>"
  let ?ag = "[parked_agent, example_agent]"
  let ?sweep = "run_counts steady_env ?ag ?args (agent_counts ?args ?ag) [] start_world"
  have counts: "agent_counts ?args ?ag = [] @ 1 # []"
    by (simp add: agent_counts_def example_args_def)
  have pre: "run_counts steady_env ?ag ?args [] [] start_world = (Inr [], start_world)"
    by simp
  have bound: "(1::int) \<le> int (length ?ag)" by simp
  from sweep_uses_prefix [OF pre _ bound, of "[]"]
  obtain res w2 new per k where run:
      "run_counts steady_env ?ag ?args ([] @ 1 # []) [] start_world =
        (case res of
           Inl e \<Rightarrow> (Inl e, w2)
         | Inr result \<Rightarrow> run_counts steady_env ?ag ?args [] ([] @ [(1, result)]) w2)"
      "trace w2 = trace start_world @ Experiment 1 (take (nat 1) ?ag) # new"
      "experiments_run new = []"
      "invocations new =
        map (\<lambda>i. \<lparr>req_scenario = segment_text steady_env (take (nat 1) ?ag) i, req_num = nat 1,
                   req_seed = seed ?args, req_time_limit = per\<rparr>) [0..<k]"
    by auto
  have final: "snd ?sweep = w2"
    using run(1) counts by (cases res) simp_all
  have called: "length (invocations (trace (snd ?sweep))) = 1"
    by (simp add: agent_counts_def slice_to_def current_out_dir_def evaluation parked_agent_def)
  have inv: "invocations (trace w2) = invocations new"
    using run(2) by (simp add: start_world_def)
  have k: "k = 1"
    using called final inv run(4) by simp
  have text0: "segment_text steady_env [parked_agent] 0 =
      ''version 1'' @ [LF] @ ''0'' @ [TAB] @ ''m.map'' @ [TAB] @ ''8'' @ [TAB] @ ''8'' @ [TAB]
        @ ''1'' @ [TAB] @ ''2'' @ [TAB] @ ''9'' @ [TAB] @ ''9'' @ [TAB] @ ''15'' @ [LF]"
    by (simp add: evaluation parked_agent_def)
  have a: "map req_num (invocations (trace (snd ?sweep))) = [1]"
    using final inv run(4) k by simp
  have b: "map req_scenario (invocations (trace (snd ?sweep))) =
       [''version 1'' @ [LF] @ ''0'' @ [TAB] @ ''m.map'' @ [TAB] @ ''8'' @ [TAB] @ ''8'' @ [TAB]
        @ ''1'' @ [TAB] @ ''2'' @ [TAB] @ ''9'' @ [TAB] @ ''9'' @ [TAB] @ ''15'' @ [LF]]"
    using final inv run(4) k text0 by simp
  have c: "experiments_run (trace (snd ?sweep)) = [(1, [parked_agent])]"
    using final run(2,3) by (simp add: start_world_def)
  show ?thesis using a b c by (intro conjI)
qed

subsection \<open>Reports of failures\<close>

lemma run_segments_files:
  "\<exists>res w' new. run_segments env agents args per od is acc w = (res, w')
     \<and> trace w' = trace w @ new \<and> set (files_written new) \<subseteq> segment_out od ` set is"
proof (cases "\<forall>p < length is. segment_cost env agents args per (calls w + p) (is ! p) \<noteq> None")
  case True
  then have "segment_cost env agents args per (calls w + p) (is ! p) \<noteq> None" if "p < length is" for p
    using that by simp
  from run_segments_all_passed [OF this, of od acc] show ?thesis by auto
next
  case False
  define bad where
    "bad p \<longleftrightarrow> p < length is \<and> segment_cost env agents args per (calls w + p) (is ! p) = None"
    for p
  from False have "\<exists>p. bad p" by (auto simp: bad_def)
  then have "\<exists>p. bad p \<and> (\<forall>q < p. \<not> bad q)"
    by (rule iffD1 [OF exists_least_iff [of bad]])
  then obtain p where p: "bad p" and least: "\<And>q. q < p \<Longrightarrow> \<not> bad q" by auto
  have len: "p < length is"
    and at: "segment_cost env agents args per (calls w + p) (is ! p) = None"
    using p by (simp_all add: bad_def)
  have before: "segment_cost env agents args per (calls w + q) (is ! q) \<noteq> None" if "q < p" for q
    using least [OF that] that len by (simp add: bad_def)
  from run_segments_first_failure [OF len before at, of od acc] obtain w' new where
    r: "run_segments env agents args per od is acc w = (Inl (SystemExit 1), w')"
      "trace w' = trace w @ new"
      "set (files_written new) \<subseteq> segment_out od ` set (take p is)"
    by auto
  have sub: "segment_out od ` set (take p is) \<subseteq> segment_out od ` set is"
    by (rule image_mono) (rule set_take_subset)
  have "set (files_written new) \<subseteq> segment_out od ` set is"
    by (rule subset_trans [OF r(3) sub])
  then show ?thesis using r(1) r(2) by auto
qed

lemma failed_experiment_files:
  assumes "run_experiment env agents args od w = (Inl e, w')"
  shows "\<exists>new. trace w' = trace w @ new \<and> set (files_written new) \<subseteq> range (segment_out od)"
proof (cases "max_waypoints_of agents")
  case (Inl e')
  then have "w' = w" using assms by (simp add: run_experiment_def)
  then show ?thesis by (intro exI [of _ "[]"]) simp
next
  case (Inr mw)
  let ?per = "per_segment_timeout (timeout args) (int (mw + 1))"
  obtain r w1 new where loop: "run_segments env agents args ?per od [0..<mw + 1] [] w = (r, w1)"
      "trace w1 = trace w @ new" "set (files_written new) \<subseteq> segment_out od ` set [0..<mw + 1]"
    using run_segments_files [of env agents args ?per od "[0..<mw + 1]" "[]" w] by auto
  have "w' = w1"
    using assms Inr loop(1) by (cases r) (simp_all add: run_experiment_def Let_def del: upt_Suc)
  moreover have "set (files_written new) \<subseteq> range (segment_out od)" using loop(3) by auto
  ultimately show ?thesis using loop(2) by auto
qed

lemma table_rows_nth:
  "table_rows fmt0 fmt1 cells = Inr rows
   \<Longrightarrow> length rows = length cells \<and> (\<forall>i < length cells. table_row fmt0 fmt1 (cells ! i) = Inr (rows ! i))"
proof (induction cells arbitrary: rows)
  case Nil
  then show ?case by simp
next
  case (Cons c cells)
  from Cons.prems obtain row rest where row: "table_row fmt0 fmt1 c = Inr row"
    and rest: "table_rows fmt0 fmt1 cells = Inr rest" and rows: "rows = row # rest"
    by (auto split: sum.splits)
  from Cons.IH [OF rest] have ih: "length rest = length cells"
    "\<forall>i < length cells. table_row fmt0 fmt1 (cells ! i) = Inr (rest ! i)" by simp_all
  show ?case
  proof (intro conjI allI impI)
    show "length rows = length (c # cells)" using ih(1) rows by simp
    fix i assume "i < length (c # cells)"
    then show "table_row fmt0 fmt1 ((c # cells) ! i) = Inr (rows ! i)"
      using row ih(2) rows by (cases i) simp_all
  qed
qed


text \<open>
  C8 as stated says that a failed experiment still receives a written report with the
  error text and partial stdout/stderr, and that a failed matrix cell is listed in the
  table with its status tag. An experiment of lacam.py whose only segment times out
  exits with status 1 and has written no file at all; a matrix cell whose child timed
  out keeps a fixed message and no stdout; and the table shows a \<open>no_summary\<close> cell as
  \<open>no_summar\<close>.
\<close>

theorem failed_experiment_report_counterexample:
  "fst (run_experiment timeout_env [parked_agent] example_args ''out'' start_world)
     = Inl (SystemExit 1)
   \<and> files_written (trace (snd
        (run_experiment timeout_env [parked_agent] example_args ''out'' start_world))) = []
   \<and> cell_error timed_out_cell = Some ''Experiment timed out after 5 minutes''
   \<and> cell_stdout timed_out_cell = None
   \<and> status missing_summary_cell = ''no_summary''
   \<and> table_row show_nat show_nat missing_summary_cell
     = Inr (''ost003d              2   100     no_summar  N/A        N/A          N/A         ''
            @ [LF])"
proof -
  have a: "fst (run_experiment timeout_env [parked_agent] example_args ''out'' start_world)
     = Inl (SystemExit 1)"
    by (simp add: evaluation timeout_env_def parked_agent_def)
  have b: "files_written (trace (snd
        (run_experiment timeout_env [parked_agent] example_args ''out'' start_world))) = []"
    by (simp add: evaluation timeout_env_def parked_agent_def)
  have c: "cell_error timed_out_cell = Some ''Experiment timed out after 5 minutes''"
    "cell_stdout timed_out_cell = None" "status missing_summary_cell = ''no_summary''"
    by (simp_all add: timed_out_cell_def missing_summary_cell_def run_single_experiment_def)
  have d: "table_row show_nat show_nat missing_summary_cell
     = Inr (''ost003d              2   100     no_summar  N/A        N/A          N/A         ''
            @ [LF])"
    by code_simp
  show ?thesis using a b c d by (intro conjI)
qed

text \<open>
  C8, amended: an experiment of lacam.py that fails writes no report: besides plan
  files of earlier segments no file is written, in particular neither summary file.
  When the experiment was started as a matrix cell and the child exits non-zero, the
  cell's record has status \<open>failed\<close> and carries the child's captured stderr as its error
  and the captured stdout; when the child times out the record has status \<open>timeout\<close>,
  a fixed message and no stdout; every cell record is part of the JSON report; the results
  table has one row per cell, and the row of a cell whose status is not \<open>success\<close> shows
  the first nine characters of the status tag and \<open>N/A\<close> for runtime, cost and cost per
  agent.
\<close>

theorem failed_experiment_report:
  "(\<forall>e w'. run_experiment env agents args od w = (Inl e, w') \<longrightarrow>
      (\<exists>new. trace w' = trace w @ new \<and> set (files_written new) \<subseteq> range (segment_out od)
         \<and> summary_file od \<notin> set (files_written new)
         \<and> readable_summary od \<notin> set (files_written new)))
   \<and> (returncode \<noteq> 0 \<longrightarrow>
        run_single_experiment (CellExited returncode sout serr elapsed st) m wp n
        = \<lparr>cell_map = m, cell_waypoints = wp, cell_agent_count = n, status = ''failed'',
           wall_time = Measured elapsed, data = None, cell_error = Some serr,
           cell_stdout = Some sout\<rparr>)
   \<and> run_single_experiment CellTimeout m wp n
        = \<lparr>cell_map = m, cell_waypoints = wp, cell_agent_count = n, status = ''timeout'',
           wall_time = Whole 300, data = None,
           cell_error = Some ''Experiment timed out after 5 minutes'', cell_stdout = None\<rparr>
   \<and> report_json (generate_comprehensive_report fmt0 fmt1 all_results) = all_results
   \<and> (status c \<noteq> ''success'' \<longrightarrow>
        table_row fmt0 fmt1 c
        = Inr (ljust 20 (take 19 (cell_map c)) @ '' '' @ ljust 3 (str_int (cell_waypoints c)) @ '' ''
               @ ljust 7 (str_int (cell_agent_count c)) @ '' '' @ ljust 10 (take 9 (status c))
               @ '' '' @ ljust 10 ''N/A'' @ '' '' @ ljust 12 ''N/A'' @ '' '' @ ljust 12 ''N/A''
               @ [LF]))
   \<and> (\<forall>rows. results_table (generate_comprehensive_report fmt0 fmt1 all_results) = Inr rows \<longrightarrow>
        length rows = length all_results
        \<and> (\<forall>i < length all_results. table_row fmt0 fmt1 (all_results ! i) = Inr (rows ! i)))"
proof (intro conjI allI impI)
  fix e w'
  assume "run_experiment env agents args od w = (Inl e, w')"
  from failed_experiment_files [OF this] obtain new where new: "trace w' = trace w @ new"
    "set (files_written new) \<subseteq> range (segment_out od)" by auto
  have a: "summary_file od \<notin> set (files_written new)"
  proof
    assume "summary_file od \<in> set (files_written new)"
    then obtain j where "summary_file od = segment_out od j" using new(2) by auto
    then show False using segment_out_not_summary(1) [of od j] by simp
  qed
  have b: "readable_summary od \<notin> set (files_written new)"
  proof
    assume "readable_summary od \<in> set (files_written new)"
    then obtain j where "readable_summary od = segment_out od j" using new(2) by auto
    then show False using segment_out_not_summary(2) [of od j] by simp
  qed
  show "\<exists>new. trace w' = trace w @ new \<and> set (files_written new) \<subseteq> range (segment_out od)
         \<and> summary_file od \<notin> set (files_written new)
         \<and> readable_summary od \<notin> set (files_written new)"
    using new a b by (intro exI [of _ new]) simp
next
  assume "returncode \<noteq> 0"
  then show "run_single_experiment (CellExited returncode sout serr elapsed st) m wp n
        = \<lparr>cell_map = m, cell_waypoints = wp, cell_agent_count = n, status = ''failed'',
           wall_time = Measured elapsed, data = None, cell_error = Some serr,
           cell_stdout = Some sout\<rparr>"
    by (simp add: run_single_experiment_def)
next
  show "run_single_experiment CellTimeout m wp n
        = \<lparr>cell_map = m, cell_waypoints = wp, cell_agent_count = n, status = ''timeout'',
           wall_time = Whole 300, data = None,
           cell_error = Some ''Experiment timed out after 5 minutes'', cell_stdout = None\<rparr>"
    by (simp add: run_single_experiment_def)
next
  show "report_json (generate_comprehensive_report fmt0 fmt1 all_results) = all_results"
    by (simp add: generate_comprehensive_report_def)
next
  assume "status c \<noteq> ''success''"
  then show "table_row fmt0 fmt1 c
        = Inr (ljust 20 (take 19 (cell_map c)) @ '' '' @ ljust 3 (str_int (cell_waypoints c)) @ '' ''
               @ ljust 7 (str_int (cell_agent_count c)) @ '' '' @ ljust 10 (take 9 (status c))
               @ '' '' @ ljust 10 ''N/A'' @ '' '' @ ljust 12 ''N/A'' @ '' '' @ ljust 12 ''N/A''
               @ [LF])"
    by (simp add: table_row_def Let_def)
next
  fix rows
  assume "results_table (generate_comprehensive_report fmt0 fmt1 all_results) = Inr rows"
  then have "table_rows fmt0 fmt1 all_results = Inr rows"
    by (simp add: generate_comprehensive_report_def split: if_splits)
  from table_rows_nth [OF this]
  show "length rows = length all_results"
    and "\<And>i. i < length all_results \<Longrightarrow> table_row fmt0 fmt1 (all_results ! i) = Inr (rows ! i)"
    by simp_all
qed

theorem failed_experiment_report_witness:
  "run_experiment timeout_env [parked_agent] example_args ''out'' start_world
     = (Inl (SystemExit 1),
        \<lparr>calls = 1,
         trace = [Invoked (segment_request timeout_env [parked_agent] example_args 100 0)]\<rparr>)
   \<and> cell_error failed_cell = Some ''Traceback''
   \<and> cell_stdout failed_cell = Some ''Segment 0 failed!''
   \<and> report_json (generate_comprehensive_report show_nat show_nat [failed_cell, timed_out_cell])
     = [failed_cell, timed_out_cell]
   \<and> results_table (generate_comprehensive_report show_nat show_nat [failed_cell, timed_out_cell])
     = Inr [''ost003d              2   100     failed     N/A        N/A          N/A         '' @ [LF],
            ''ost003d              2   100     timeout    N/A        N/A          N/A         '' @ [LF]]"
proof -
  have run: "run_experiment timeout_env [parked_agent] example_args ''out'' start_world
     = (Inl (SystemExit 1),
        \<lparr>calls = 1,
         trace = [Invoked (segment_request timeout_env [parked_agent] example_args 100 0)]\<rparr>)"
    by (simp add: evaluation segment_request_def timeout_env_def parked_agent_def)
  have code: "(1::int) \<noteq> 0" by simp
  note inst = failed_experiment_report [where env = timeout_env and agents = "[parked_agent]"
      and args = example_args and od = "''out''" and w = start_world
      and returncode = 1 and sout = "''Segment 0 failed!''" and serr = "''Traceback''"
      and elapsed = "5::nat" and st = SummaryMissing and m = "''ost003d''" and wp = 2 and n = 100
      and ?fmt0.0 = show_nat and ?fmt1.0 = show_nat and all_results = "[failed_cell, timed_out_cell]"
      and c = failed_cell]
  have cell: "failed_cell = \<lparr>cell_map = ''ost003d'', cell_waypoints = 2, cell_agent_count = 100,
      status = ''failed'', wall_time = Measured 5, data = None, cell_error = Some ''Traceback'',
      cell_stdout = Some ''Segment 0 failed!''\<rparr>"
    unfolding failed_cell_def by (rule inst [THEN conjunct2, THEN conjunct1, rule_format, OF code])
  have json: "report_json (generate_comprehensive_report show_nat show_nat
      [failed_cell, timed_out_cell]) = [failed_cell, timed_out_cell]"
    by (rule inst [THEN conjunct2, THEN conjunct2, THEN conjunct2, THEN conjunct1])
  have rows: "results_table (generate_comprehensive_report show_nat show_nat
      [failed_cell, timed_out_cell])
     = Inr [''ost003d              2   100     failed     N/A        N/A          N/A         '' @ [LF],
            ''ost003d              2   100     timeout    N/A        N/A          N/A         '' @ [LF]]"
    by code_simp
  have ce: "cell_error failed_cell = Some ''Traceback''"
    and cs: "cell_stdout failed_cell = Some ''Segment 0 failed!''"
    by (simp_all add: cell)
  show ?thesis using run ce cs json rows by (intro conjI)
qed

end
